theory Spec2Isabelle
  imports Complex_Main "HOL-Library.Word" "HOL-Library.Monad_Syntax"
begin

section \<open>Common conventions\<close>

text \<open>
  The Python sources work on NumPy arrays of floating-point numbers in which NaN marks
  a cell without data. A cell is modelled as \<open>real option\<close>: \<open>None\<close> is NaN,
  \<open>Some e\<close> a finite elevation. Arithmetic is exact real arithmetic; the rounding of
  \<open>float32\<close> and \<open>float64\<close> is outside the model. A two-dimensional array is the
  list of its rows.
\<close>

type_synonym cell = "real option"
type_synonym grid = "cell list list"
type_synonym mask = "bool list list"

text \<open>
  What the code can raise: a division by zero, \<open>math.log\<close> outside its domain, a power
  of two beyond the range of a double, an array of negative size, arrays whose shapes do
  not fit, and a minimum taken of an array without cells.
\<close>

datatype py_error =
  ZeroDivisionError | MathDomainError | OverflowError | NegativeDimensions | ShapeMismatch
  | ZeroSizeReduction

section \<open>download\_dem.py: decoding a PNG elevation tile\<close>

text \<open>
  \<open>png_to_elevation\<close> reads the image as an array of \<open>uint32\<close> channels and
  computes \<open>x = r * 65536 + g * 256 + b\<close> in \<open>uint32\<close>. Every channel is a byte.
\<close>

definition pixel_code :: "8 word \<Rightarrow> 8 word \<Rightarrow> 8 word \<Rightarrow> 32 word" where
  "pixel_code r g b = ucast r * 65536 + ucast g * 256 + ucast b"

text \<open>
  \<open>np.where(x < 8388608, x * 0.01, (x - 16777216.0) * 0.01)\<close>, followed by
  \<open>elev[x == 8388608] = np.nan\<close>.
\<close>

definition decode_elevation :: "32 word \<Rightarrow> cell" where
  "decode_elevation x =
     (let elev = (if x < 8388608 then real (unat x) * 0.01
                  else (real (unat x) - 16777216) * 0.01)
      in if x = 8388608 then None else Some elev)"

definition png_to_elevation :: "(8 word \<times> 8 word \<times> 8 word) list list \<Rightarrow> grid" where
  "png_to_elevation img = map (map (\<lambda>(r, g, b). decode_elevation (pixel_code r g b))) img"

section \<open>download\_dem.py: tile coordinates\<close>

text \<open>
  \<open>int(v)\<close> on a Python float truncates towards zero.
\<close>

definition py_int :: "real \<Rightarrow> int" where
  "py_int v = (if 0 \<le> v then \<lfloor>v\<rfloor> else \<lceil>v\<rceil>)"

text \<open>
  \<open>2.0 ** zoom\<close> for an integer \<open>zoom\<close>, as doubles have it: the power is a double
  for exponents from -1074 to 1023, it is \<open>0.0\<close> below, and Python raises
  \<open>OverflowError\<close> from 1024 on.
\<close>

definition float_pow2 :: "int \<Rightarrow> py_error + real" where
  "float_pow2 zoom =
     (if 1024 \<le> zoom then Inl OverflowError
      else if zoom < - 1074 then Inr 0
      else Inr (2 powi zoom))"

text \<open>
  \<open>deg2num\<close>. \<open>math.radians\<close> multiplies by \<open>pi / 180\<close>. The function has no check
  of its own on the latitude. What can raise is the power of two, the division by
  \<open>math.cos(lat_r)\<close> and \<open>math.log\<close> of an argument that is not positive. The
  arithmetic on the latitude is exact here. In doubles it is not: the cosine of no double
  is zero (at 90 degrees the code returns), and within about a millionth of a degree of
  -90 degrees the sum \<open>tan + 1 / cos\<close> rounds to zero, so that \<open>math.log\<close> raises.
\<close>

definition deg2num :: "real \<Rightarrow> real \<Rightarrow> int \<Rightarrow> py_error + int \<times> int" where
  "deg2num lat lon zoom =
     (let lat_r = lat * pi / 180
      in case float_pow2 zoom of
           Inl e \<Rightarrow> Inl e
         | Inr n \<Rightarrow>
             let x = py_int ((lon + 180) / 360 * n)
             in if cos lat_r = 0 then Inl ZeroDivisionError
                else if tan lat_r + 1 / cos lat_r \<le> 0 then Inl MathDomainError
                else Inr (x, py_int ((1 - ln (tan lat_r + 1 / cos lat_r) / pi) / 2 * n)))"

text \<open>
  \<open>num2deg\<close>; \<open>math.degrees\<close> multiplies by \<open>180 / pi\<close>. The division by \<open>n\<close>
  raises when the power of two is \<open>0.0\<close>.
\<close>

definition num2deg :: "int \<Rightarrow> int \<Rightarrow> int \<Rightarrow> py_error + real \<times> real" where
  "num2deg x y zoom =
     (case float_pow2 zoom of
        Inl e \<Rightarrow> Inl e
      | Inr n \<Rightarrow>
          if n = 0 then Inl ZeroDivisionError
          else
            let lon = of_int x / n * 360 - 180;
                lat = arctan (sinh (pi * (1 - 2 * of_int y / n))) * 180 / pi
            in Inr (lat, lon))"

section \<open>download\_dem.py: compositing the sources of one tile\<close>

text \<open>
  A tile is a square grid; \<open>download_one\<close> works on tiles of 256 by 256 cells. The size
  is a parameter \<open>n\<close> of the model, 256 in the code, so that the functions can be
  evaluated on small tiles.
\<close>

definition is_tile :: "nat \<Rightarrow> 'a list list \<Rightarrow> bool" where
  "is_tile n g = (length g = n \<and> (\<forall>row \<in> set g. length row = n))"

text \<open>
  One pass of the loop body on one cell: \<open>mask = np.isnan(result) & ~np.isnan(layer)\<close>
  and \<open>result[mask] = layer[mask]\<close>.
\<close>

definition fill_cell :: "cell \<Rightarrow> cell \<Rightarrow> cell" where
  "fill_cell r l = (if r = None \<and> l \<noteq> None then l else r)"

definition fill_gaps :: "grid \<Rightarrow> grid \<Rightarrow> grid" where
  "fill_gaps result layer = map2 (map2 fill_cell) result layer"

text \<open>\<open>np.any(np.isnan(result))\<close>.\<close>

definition has_nan :: "grid \<Rightarrow> bool" where
  "has_nan g = (\<exists>row \<in> set g. None \<in> set row)"

text \<open>
  The loop over \<open>layers\<close>, with its \<open>continue\<close> on a source that failed (\<open>None\<close>)
  and its \<open>break\<close> once no cell is NaN. NumPy raises when the layer has another shape
  than the result.
\<close>

fun composite :: "nat \<Rightarrow> grid \<Rightarrow> grid option list \<Rightarrow> py_error + grid" where
  "composite n result [] = Inr result"
| "composite n result (None # layers) = composite n result layers"
| "composite n result (Some layer # layers) =
     (if \<not> is_tile n layer then Inl ShapeMismatch
      else let result' = fill_gaps result layer
           in if \<not> has_nan result' then Inr result' else composite n result' layers)"

text \<open>
  \<open>download_one\<close>, as a function of what it reads: the cache entry (\<open>None\<close> when
  there is none, or when it cannot be loaded) and the decoded sources in priority order
  (\<open>None\<close> for a source that failed). The result starts as \<open>np.full((n, n), np.nan)\<close>.
\<close>

definition download_one :: "nat \<Rightarrow> grid option \<Rightarrow> grid option list \<Rightarrow> py_error + grid" where
  "download_one n cache layers =
     (case cache of
        Some g \<Rightarrow> Inr g
      | None \<Rightarrow> composite n (replicate n (replicate n None)) layers)"

section \<open>download\_dem.py: mosaic and crop\<close>

text \<open>
  The crop step of \<open>create_geotiff\<close>, from the requested bounds, the bounds of the
  tile-aligned mosaic and its size in pixels to the crop offsets, the size of the cropped
  array (as the slice \<open>elevation[row_start:row_end, col_start:col_end]\<close> has it) and
  the bounds computed again for it. Divisions by zero raise.
\<close>

record crop =
  row_start :: int
  row_end :: int
  col_start :: int
  col_end :: int
  crop_width :: int
  crop_height :: int
  crop_lon_min :: real
  crop_lon_max :: real
  crop_lat_min :: real
  crop_lat_max :: real

definition crop_window ::
  "real \<Rightarrow> real \<Rightarrow> real \<Rightarrow> real \<Rightarrow> real \<Rightarrow> real \<Rightarrow> real \<Rightarrow> real \<Rightarrow> int \<Rightarrow> int \<Rightarrow> py_error + crop" where
  "crop_window lat_min lat_max lon_min lon_max
       lat_max_actual lon_min_actual lat_min_actual lon_max_actual width height =
     (if width = 0 \<or> height = 0 then Inl ZeroDivisionError
      else
        let deg_per_px_lon = (lon_max_actual - lon_min_actual) / of_int width;
            deg_per_px_lat = (lat_max_actual - lat_min_actual) / of_int height
        in if deg_per_px_lon = 0 \<or> deg_per_px_lat = 0 then Inl ZeroDivisionError
           else
             let col_start = py_int ((lon_min - lon_min_actual) / deg_per_px_lon);
                 col_end = py_int ((lon_max - lon_min_actual) / deg_per_px_lon);
                 row_start = py_int ((lat_max_actual - lat_max) / deg_per_px_lat);
                 row_end = py_int ((lat_max_actual - lat_min) / deg_per_px_lat);
                 col_start = max 0 col_start;
                 col_end = min width (max col_end (col_start + 1));
                 row_start = max 0 row_start;
                 row_end = min height (max row_end (row_start + 1));
                 height' = max 0 (row_end - row_start);
                 width' = max 0 (col_end - col_start);
                 lon_min_actual' = lon_min_actual + of_int col_start * deg_per_px_lon;
                 lon_max_actual' = lon_min_actual' + of_int width' * deg_per_px_lon;
                 lat_max_actual' = lat_max_actual - of_int row_start * deg_per_px_lat;
                 lat_min_actual' = lat_max_actual' - of_int height' * deg_per_px_lat
             in Inr \<lparr>row_start = row_start, row_end = row_end,
                      col_start = col_start, col_end = col_end,
                      crop_width = width', crop_height = height',
                      crop_lon_min = lon_min_actual', crop_lon_max = lon_max_actual',
                      crop_lat_min = lat_min_actual', crop_lat_max = lat_max_actual'\<rparr>)"

text \<open>The rectangle of tiles: \<open>x_min, y_min, x_max, y_max\<close>.\<close>

record tile_rect =
  tx_min :: int
  ty_min :: int
  tx_max :: int
  ty_max :: int

definition tile_range :: "real \<Rightarrow> real \<Rightarrow> real \<Rightarrow> real \<Rightarrow> int \<Rightarrow> py_error + tile_rect" where
  "tile_range lat_min lat_max lon_min lon_max zoom =
     (case deg2num lat_max lon_min zoom of
        Inl e \<Rightarrow> Inl e
      | Inr (x_min, y_min) \<Rightarrow>
          (case deg2num lat_min lon_max zoom of
             Inl e \<Rightarrow> Inl e
           | Inr (x_max, y_max) \<Rightarrow>
               Inr \<lparr>tx_min = x_min, ty_min = y_min, tx_max = x_max, ty_max = y_max\<rparr>))"

text \<open>
  The bounds of the mosaic by \<open>num2deg\<close> at its corners, then the crop.
\<close>

definition crop_geometry :: "real \<Rightarrow> real \<Rightarrow> real \<Rightarrow> real \<Rightarrow> int \<Rightarrow> tile_rect \<Rightarrow> py_error + crop" where
  "crop_geometry lat_min lat_max lon_min lon_max zoom t =
     (let nx = tx_max t - tx_min t + 1; ny = ty_max t - ty_min t + 1;
          height = ny * 256; width = nx * 256
      in case num2deg (tx_min t) (ty_min t) zoom of
           Inl e \<Rightarrow> Inl e
         | Inr (lat_max_actual, lon_min_actual) \<Rightarrow>
             (case num2deg (tx_max t + 1) (ty_max t + 1) zoom of
                Inl e \<Rightarrow> Inl e
              | Inr (lat_min_actual, lon_max_actual) \<Rightarrow>
                  crop_window lat_min lat_max lon_min lon_max
                    lat_max_actual lon_min_actual lat_min_actual lon_max_actual width height))"

text \<open>\<open>len(elevation[~np.isnan(elevation)]) > 0\<close>.\<close>

definition has_valid :: "grid \<Rightarrow> bool" where
  "has_valid g = (\<exists>row \<in> set g. \<exists>c \<in> set row. c \<noteq> None)"

text \<open>
  The mosaic: \<open>np.full((height, width), np.nan)\<close>, into which every tile that
  \<open>tile_data\<close> holds is pasted at its row and column offset. \<open>tile_data\<close> is the
  dictionary that \<open>download_all\<close> returns. A negative size makes \<open>np.full\<close> raise, and
  a tile that is not 256 by 256 makes the assignment raise (NumPy would broadcast a tile
  of one row, one column or one cell; \<open>download_one\<close> produces none, and the model
  raises for them as well).
\<close>

definition mosaic_cell :: "(int \<times> int \<Rightarrow> grid option) \<Rightarrow> tile_rect \<Rightarrow> nat \<Rightarrow> nat \<Rightarrow> cell" where
  "mosaic_cell tile_data t r c =
     (case tile_data (tx_min t + int (c div 256), ty_min t + int (r div 256)) of
        None \<Rightarrow> None
      | Some data \<Rightarrow> data ! (r mod 256) ! (c mod 256))"

definition mosaic :: "(int \<times> int \<Rightarrow> grid option) \<Rightarrow> tile_rect \<Rightarrow> py_error + grid" where
  "mosaic tile_data t =
     (let nx = tx_max t - tx_min t + 1; ny = ty_max t - ty_min t + 1;
          height = ny * 256; width = nx * 256
      in if height < 0 \<or> width < 0 then Inl NegativeDimensions
         else if list_ex (\<lambda>ty. list_ex (\<lambda>tx.
                     case tile_data (tx, ty) of None \<Rightarrow> False
                     | Some data \<Rightarrow> \<not> is_tile 256 data) [tx_min t..tx_max t])
                   [ty_min t..ty_max t]
         then Inl ShapeMismatch
         else Inr (map (\<lambda>r. map (\<lambda>c. mosaic_cell tile_data t r c) [0..<nat width])
                     [0..<nat height]))"

text \<open>The slice \<open>a[r0:r1, c0:c1]\<close> for offsets that are not negative.\<close>

definition slice2 :: "'a list list \<Rightarrow> int \<Rightarrow> int \<Rightarrow> int \<Rightarrow> int \<Rightarrow> 'a list list" where
  "slice2 a r0 r1 c0 c1 =
     map (\<lambda>row. take (nat (c1 - c0)) (drop (nat c0) row)) (take (nat (r1 - r0)) (drop (nat r0) a))"

text \<open>What is written to the output file.\<close>

record geotiff =
  tif_width :: int
  tif_height :: int
  tif_west :: real
  tif_south :: real
  tif_east :: real
  tif_north :: real
  tif_nodata :: real
  tif_band :: "real list list"

text \<open>
  \<open>create_geotiff\<close>, as a function of its arguments, of the answer to the prompt
  (\<open>answer_yes\<close>) and of the downloaded tiles. \<open>Inr None\<close> is the return value
  \<open>False\<close>: no file is written. \<open>Inr (Some f)\<close> is the return value \<open>True\<close>, after
  \<open>f\<close> was written. On a cropped array without cells \<open>np.nanmin\<close>, called for the
  report that is printed, raises.
\<close>

definition create_geotiff ::
  "real \<Rightarrow> real \<Rightarrow> real \<Rightarrow> real \<Rightarrow> int \<Rightarrow> bool \<Rightarrow> bool \<Rightarrow> (int \<times> int \<Rightarrow> grid option)
     \<Rightarrow> py_error + geotiff option" where
  "create_geotiff lat_a lat_b lon_a lon_b zoom skip_confirm answer_yes tile_data =
     (let lat_min = min lat_a lat_b; lat_max = max lat_a lat_b;
          lon_min = min lon_a lon_b; lon_max = max lon_a lon_b
      in case tile_range lat_min lat_max lon_min lon_max zoom of
           Inl e \<Rightarrow> Inl e
         | Inr t \<Rightarrow>
             let nx = tx_max t - tx_min t + 1; ny = ty_max t - ty_min t + 1;
                 num_tiles = nx * ny
             in if num_tiles > 100 \<and> \<not> skip_confirm \<and> \<not> answer_yes then Inr None
                else
                  (case mosaic tile_data t of
                     Inl e \<Rightarrow> Inl e
                   | Inr elevation \<Rightarrow>
                       if \<not> has_valid elevation then Inr None
                       else
                         (case crop_geometry lat_min lat_max lon_min lon_max zoom t of
                            Inl e \<Rightarrow> Inl e
                          | Inr c \<Rightarrow>
                              if crop_width c = 0 \<or> crop_height c = 0 then Inl ZeroSizeReduction
                              else
                                let cropped = slice2 elevation (row_start c) (row_end c)
                                                (col_start c) (col_end c);
                                    out = map (map (\<lambda>v. case v of None \<Rightarrow> - 9999 | Some e \<Rightarrow> e))
                                            cropped
                                in Inr (Some \<lparr>tif_width = crop_width c,
                                               tif_height = crop_height c,
                                               tif_west = crop_lon_min c,
                                               tif_south = crop_lat_min c,
                                               tif_east = crop_lon_max c,
                                               tif_north = crop_lat_max c,
                                               tif_nodata = - 9999,
                                               tif_band = out\<rparr>))))"

text \<open>The array \<open>elevation\<close> of \<open>create_geotiff\<close> as it is when the tiles are pasted.\<close>

definition assembled ::
  "real \<Rightarrow> real \<Rightarrow> real \<Rightarrow> real \<Rightarrow> int \<Rightarrow> (int \<times> int \<Rightarrow> grid option) \<Rightarrow> py_error + grid" where
  "assembled lat_a lat_b lon_a lon_b zoom tile_data =
     (case tile_range (min lat_a lat_b) (max lat_a lat_b) (min lon_a lon_b) (max lon_a lon_b) zoom of
        Inl e \<Rightarrow> Inl e
      | Inr t \<Rightarrow> mosaic tile_data t)"

section \<open>terrain\_layering.py: reading the elevation model\<close>

text \<open>
  The constructor of \<open>TerrainLayerGenerator\<close>, from the array read from the file to
  \<open>self.elevation\<close>. \<open>raw[p(raw)] = np.nan\<close> is \<open>set_nan_where p\<close>.
\<close>

definition set_nan_where :: "(real \<Rightarrow> bool) \<Rightarrow> grid \<Rightarrow> grid" where
  "set_nan_where p raw =
     map (map (\<lambda>c. case c of None \<Rightarrow> None | Some e \<Rightarrow> if p e then None else Some e)) raw"

text \<open>
  The three steps that turn cells into NaN before anything else: the no-data value of the
  file, every value of at most -9000, and, when no \<open>elev_range_min\<close> is given, every value
  below 0.
\<close>

definition mark_nodata :: "real option \<Rightarrow> real option \<Rightarrow> grid \<Rightarrow> grid" where
  "mark_nodata nodata elev_range_min raw =
     (let raw = (case nodata of None \<Rightarrow> raw | Some v \<Rightarrow> set_nan_where (\<lambda>e. e = v) raw);
          raw = set_nan_where (\<lambda>e. e \<le> - 9000) raw;
          raw = (if elev_range_min = None then set_nan_where (\<lambda>e. e < 0) raw else raw)
      in raw)"

text \<open>\<open>np.nan_to_num(raw, nan=0.0)\<close> and \<open>smoothed[np.isnan(raw)] = np.nan\<close>.\<close>

definition nan_to_num :: "grid \<Rightarrow> real list list" where
  "nan_to_num raw = map (map (\<lambda>c. case c of None \<Rightarrow> 0 | Some e \<Rightarrow> e)) raw"

definition keep_nan :: "grid \<Rightarrow> real list list \<Rightarrow> grid" where
  "keep_nan raw smoothed =
     map2 (map2 (\<lambda>c s. case c of None \<Rightarrow> None | Some _ \<Rightarrow> Some s)) raw smoothed"

text \<open>
  SciPy's \<open>zoom\<close> (with \<open>order=1\<close>) and \<open>gaussian_filter\<close> are library functions; the
  model takes them as parameters.
\<close>

definition load_elevation ::
  "(grid \<Rightarrow> real \<Rightarrow> grid) \<Rightarrow> (real list list \<Rightarrow> real \<Rightarrow> real list list)
     \<Rightarrow> real option \<Rightarrow> real option \<Rightarrow> real option \<Rightarrow> real \<Rightarrow> real \<Rightarrow> grid \<Rightarrow> grid" where
  "load_elevation zoom gaussian_filter nodata elev_range_min elev_range_max
       downsample smoothing_sigma raw =
     (let raw = mark_nodata nodata elev_range_min raw;
          raw = (if downsample \<noteq> 1 then zoom raw downsample else raw);
          raw = (case elev_range_min of None \<Rightarrow> raw | Some lo \<Rightarrow> set_nan_where (\<lambda>e. e < lo) raw);
          raw = (case elev_range_max of None \<Rightarrow> raw | Some hi \<Rightarrow> set_nan_where (\<lambda>e. e > hi) raw);
          raw = (if smoothing_sigma > 0
                 then keep_nan raw (gaussian_filter (nan_to_num raw) smoothing_sigma)
                 else raw)
      in raw)"

text \<open>
  \<open>np.nanmin\<close> and \<open>np.nanmax\<close>: the least and the greatest valid value, NaN when
  there is none.
\<close>

definition valid_values :: "grid \<Rightarrow> real list" where
  "valid_values g = concat (map (\<lambda>row. concat (map (\<lambda>c. case c of None \<Rightarrow> [] | Some e \<Rightarrow> [e]) row)) g)"

definition nanmin :: "grid \<Rightarrow> real option" where
  "nanmin g = (let vs = valid_values g in if vs = [] then None else Some (Min (set vs)))"

definition nanmax :: "grid \<Rightarrow> real option" where
  "nanmax g = (let vs = valid_values g in if vs = [] then None else Some (Max (set vs)))"

section \<open>terrain\_layering.py: the elevation levels\<close>

text \<open>
  The constructor sets \<open>base_elev\<close> to the given base elevation, or to
  \<open>np.floor(min_elev / interval) * interval\<close> when none is given. The division is a
  division of Python scalars and raises on a zero interval.
\<close>

definition base_elev :: "real option \<Rightarrow> real \<Rightarrow> real \<Rightarrow> py_error + real" where
  "base_elev base_elevation min_elev interval =
     (case base_elevation of
        None \<Rightarrow> if interval = 0 then Inl ZeroDivisionError
                else Inr (of_int \<lfloor>min_elev / interval\<rfloor> * interval)
      | Some b \<Rightarrow> Inr b)"

text \<open>
  The \<open>while\<close> loop of \<open>get_levels\<close>. It does not end when the interval is not
  positive and the first level is below the bound, so it is a partial function:
  \<open>None\<close> is a run that does not return.
\<close>

partial_function (option) levels_loop :: "real \<Rightarrow> real \<Rightarrow> real \<Rightarrow> real list \<Rightarrow> real list option" where
  "levels_loop v max_elev interval levels =
     (if v \<le> max_elev + interval * 0.01
      then levels_loop (v + interval) max_elev interval (levels @ [v])
      else Some levels)"

definition effective_base :: "real \<Rightarrow> real" where
  "effective_base b = max 0 b"

definition get_levels :: "real \<Rightarrow> real \<Rightarrow> real \<Rightarrow> real list option" where
  "get_levels b max_elev interval = levels_loop (effective_base b) max_elev interval []"

section \<open>terrain\_layering.py: the region of a level\<close>

text \<open>
  \<open>extract_contours\<close> up to the mask that is traced. \<open>data[data == self.nodata] = np.nan\<close>
  when the file names a no-data value, then
  \<open>binary_mask = valid & (data >= level)\<close> with \<open>valid = ~np.isnan(data)\<close>.
\<close>

definition apply_nodata :: "real option \<Rightarrow> grid \<Rightarrow> grid" where
  "apply_nodata nodata data =
     (case nodata of
        None \<Rightarrow> data
      | Some v \<Rightarrow> map (map (\<lambda>c. if c = Some v then None else c)) data)"

definition threshold_mask :: "grid \<Rightarrow> real \<Rightarrow> mask" where
  "threshold_mask data level =
     map (map (\<lambda>c. c \<noteq> None \<and> (case c of None \<Rightarrow> False | Some e \<Rightarrow> level \<le> e))) data"

text \<open>
  Modelled from the spec: \<open>binary_fill_holes\<close> is a function of SciPy; its code is not
  part of the repository. Section 4.6, step 2 of the specification: a region that is no
  data or below the threshold and that a flood fill from the outer edge of the grid does
  not reach becomes land. As SciPy does it, the flood grows inside the complement of the
  input by dilation with the four neighbours of a cell, everything beyond the edge
  counting as flooded, until it does not change any more; the result is the complement
  of the flood. The flood gets as many rounds as the grid has cells, and one more.
\<close>

definition cell_or_border :: "mask \<Rightarrow> int \<Rightarrow> int \<Rightarrow> bool" where
  "cell_or_border cur i j =
     (if 0 \<le> i \<and> i < int (length cur) \<and> 0 \<le> j \<and> j < int (length (cur ! nat i))
      then cur ! nat i ! nat j else True)"

definition dilate_step :: "mask \<Rightarrow> mask \<Rightarrow> mask" where
  "dilate_step allowed cur =
     map (\<lambda>i. map (\<lambda>j. allowed ! i ! j
                     \<and> (cell_or_border cur (int i) (int j)
                        \<or> cell_or_border cur (int i - 1) (int j)
                        \<or> cell_or_border cur (int i + 1) (int j)
                        \<or> cell_or_border cur (int i) (int j - 1)
                        \<or> cell_or_border cur (int i) (int j + 1)))
               [0..<length (allowed ! i)])
       [0..<length allowed]"

fun dilate_until_stable :: "nat \<Rightarrow> mask \<Rightarrow> mask \<Rightarrow> mask" where
  "dilate_until_stable 0 allowed cur = cur"
| "dilate_until_stable (Suc fuel) allowed cur =
     (let nxt = dilate_step allowed cur
      in if nxt = cur then cur else dilate_until_stable fuel allowed nxt)"

definition binary_fill_holes :: "mask \<Rightarrow> mask" where
  "binary_fill_holes input =
     (let allowed = map (map Not) input;
          tmp = map (map (\<lambda>_. False)) input;
          flooded = dilate_until_stable (Suc (length (concat input))) allowed tmp
      in map (map Not) flooded)"

text \<open>The mask of a level before it is padded, traced and simplified.\<close>

definition region_mask :: "real option \<Rightarrow> grid \<Rightarrow> real \<Rightarrow> mask" where
  "region_mask nodata elevation level =
     binary_fill_holes (threshold_mask (apply_nodata nodata elevation) level)"

section \<open>terrain\_layering.py: Ramer-Douglas-Peucker simplification\<close>

text \<open>
  A contour is an array of shape \<open>(n, 2)\<close>: a list of points. \<open>psub\<close> is the
  difference of two rows, \<open>norm2\<close> is \<open>np.linalg.norm\<close> of a row and
  \<open>cross2\<close> is \<open>np.cross\<close> of two rows of length two.
\<close>

type_synonym point = "real \<times> real"

definition psub :: "point \<Rightarrow> point \<Rightarrow> point" where
  "psub p q = (fst p - fst q, snd p - snd q)"

definition norm2 :: "point \<Rightarrow> real" where
  "norm2 p = sqrt ((fst p)\<^sup>2 + (snd p)\<^sup>2)"

definition cross2 :: "point \<Rightarrow> point \<Rightarrow> real" where
  "cross2 p q = fst p * snd q - snd p * fst q"

text \<open>\<open>np.argmax\<close>: the index of the first greatest entry.\<close>

fun argmax :: "real list \<Rightarrow> nat" where
  "argmax [] = 0"
| "argmax [x] = 0"
| "argmax (x # y # ys) = (let i = argmax (y # ys) in if x < (y # ys) ! i then Suc i else 0)"

text \<open>The array \<open>dists\<close> of \<open>_rdp_simplify\<close>, for an array of at least one point.\<close>

definition chord_dists :: "point list \<Rightarrow> real list" where
  "chord_dists points =
     (let start = hd points; end = last points;
          d = psub end start;
          norm = norm2 d
      in if norm = 0 then map (\<lambda>p. norm2 (psub p start)) points
         else map (\<lambda>p. \<bar>cross2 d (psub start p)\<bar> / norm) points)"

text \<open>
  \<open>_rdp_simplify\<close>. With a negative tolerance the recursion need not end (a farthest
  point at index 0 gives the whole array back to the second call), so the function is
  partial: \<open>None\<close> is a run that does not return.
\<close>

partial_function (option) rdp_simplify :: "point list \<Rightarrow> real \<Rightarrow> point list option" where
  "rdp_simplify points epsilon =
     (if length points < 3 then Some points
      else
        (let dists = chord_dists points; idx = argmax dists
         in if dists ! idx > epsilon
            then do {
              left \<leftarrow> rdp_simplify (take (idx + 1) points) epsilon;
              right \<leftarrow> rdp_simplify (drop idx points) epsilon;
              Some (butlast left @ right)
            }
            else Some [hd points, last points]))"

text \<open>
  Vocabulary for the properties: the distance that \<open>chord_dists\<close> gives to one point,
  collinear points, and a polyline of two straight legs \<open>xs\<close> and \<open>ys\<close> that meet
  in a corner \<open>c\<close>; \<open>on_leg a c p\<close> says that \<open>p\<close> lies on the segment from
  \<open>a\<close> to \<open>c\<close>, and is not \<open>c\<close>.
\<close>

definition chord_dist :: "point \<Rightarrow> point \<Rightarrow> point \<Rightarrow> real" where
  "chord_dist start end p =
     (if norm2 (psub end start) = 0 then norm2 (psub p start)
      else \<bar>cross2 (psub end start) (psub start p)\<bar> / norm2 (psub end start))"

definition collinear :: "point list \<Rightarrow> bool" where
  "collinear points =
     (\<forall>p \<in> set points. \<forall>q \<in> set points. \<forall>r \<in> set points.
        cross2 (psub q p) (psub r p) = 0)"

definition dot2 :: "point \<Rightarrow> point \<Rightarrow> real" where
  "dot2 p q = fst p * fst q + snd p * snd q"

definition on_leg :: "point \<Rightarrow> point \<Rightarrow> point \<Rightarrow> bool" where
  "on_leg a c p =
     (cross2 (psub c a) (psub p a) = 0
      \<and> 0 \<le> dot2 (psub p a) (psub c a)
      \<and> dot2 (psub p a) (psub c a) < dot2 (psub c a) (psub c a))"

definition corner_polyline :: "point list \<Rightarrow> point \<Rightarrow> point list \<Rightarrow> bool" where
  "corner_polyline xs c ys =
     (xs \<noteq> [] \<and> ys \<noteq> []
      \<and> (\<forall>p \<in> set xs. on_leg (hd xs) c p)
      \<and> (\<forall>p \<in> set ys. on_leg (last ys) c p))"

definition right_angle_polyline :: "point list \<Rightarrow> point \<Rightarrow> point list \<Rightarrow> bool" where
  "right_angle_polyline xs c ys =
     (corner_polyline xs c ys \<and> dot2 (psub (hd xs) c) (psub (last ys) c) = 0)"

text \<open>
  Two runs of 100 collinear points: one along the first axis, and one that leaves the
  origin at its 50th point and ends where it began.
\<close>

definition straight_run :: "point list" where
  "straight_run = map (\<lambda>i. (real i, 0)) [0..<100]"

definition out_and_back :: "point list" where
  "out_and_back = replicate 49 (0, 0) @ [(1, 0)] @ replicate 50 (0, 0)"

section \<open>Vocabulary of the properties\<close>

subsection \<open>Compositing\<close>

text \<open>
  The union of source grids, as the specification has it: every cell takes the value of
  the first source in priority order that has data there, and is no-data when none has.
  \<open>present\<close> drops the sources that failed. Two grids have disjoint no-data patterns
  when no cell is no-data in both.
\<close>

fun first_valid :: "cell list \<Rightarrow> cell" where
  "first_valid [] = None"
| "first_valid (None # cs) = first_valid cs"
| "first_valid (Some e # cs) = Some e"

definition present :: "grid option list \<Rightarrow> grid list" where
  "present layers = concat (map (\<lambda>l. case l of None \<Rightarrow> [] | Some g \<Rightarrow> [g]) layers)"

definition overlay :: "nat \<Rightarrow> grid list \<Rightarrow> grid" where
  "overlay n gs = map (\<lambda>i. map (\<lambda>j. first_valid (map (\<lambda>g. g ! i ! j) gs)) [0..<n]) [0..<n]"

definition disjoint_nodata :: "grid \<Rightarrow> grid \<Rightarrow> bool" where
  "disjoint_nodata a b = list_all2 (list_all2 (\<lambda>x y. \<not> (x = None \<and> y = None))) a b"

definition tile_a :: grid where
  "tile_a = [[Some 1, None], [Some 1, Some 1]]"

definition tile_b :: grid where
  "tile_b = [[Some 2, Some 2], [None, Some 2]]"

definition tile_c :: grid where
  "tile_c = [[Some 3, Some 3], [Some 3, None]]"

subsection \<open>Mosaic and crop\<close>

text \<open>
  The fraction of the height of the tile pyramid that \<open>deg2num\<close> computes for a latitude,
  and the latitude that \<open>num2deg\<close> computes for such a fraction.
\<close>

definition merc :: "real \<Rightarrow> real" where
  "merc lat = (1 - ln (tan (lat * pi / 180) + 1 / cos (lat * pi / 180)) / pi) / 2"

definition unmerc :: "real \<Rightarrow> real" where
  "unmerc v = arctan (sinh (pi * (1 - 2 * v))) * 180 / pi"

text \<open>
  The offsets and the size of a crop, and three doubles by their exact values:
  35.63944106897394, which is what \<open>num2deg\<close> returns in doubles for the south edge of
  the tile row 6453 at zoom 14; 35.65729624809628, what it returns for the north edge of
  that row; and the double that the literal 139.7 denotes.
\<close>

definition crop_offsets :: "crop \<Rightarrow> int \<times> int \<times> int \<times> int \<times> int \<times> int" where
  "crop_offsets c =
     (row_start c, row_end c, col_start c, col_end c, crop_width c, crop_height c)"

definition row_6453_south :: real where
  "row_6453_south = 2507902711217559 / 70368744177664"

definition row_6453_north :: real where
  "row_6453_north = 5018318315498931 / 140737488355328"

definition lon_139_7 :: real where
  "lon_139_7 = 2457628390404915 / 17592186044416"

text \<open>
  A tile whose only valid cell is its first one, the download in which every tile is this
  one, and the download that holds no tile.
\<close>

definition corner_tile :: grid where
  "corner_tile = (Some 1 # replicate 255 None) # replicate 255 (replicate 256 None)"

definition corner_tiles :: "int \<times> int \<Rightarrow> grid option" where
  "corner_tiles t = Some corner_tile"

definition no_tiles :: "int \<times> int \<Rightarrow> grid option" where
  "no_tiles t = None"

subsection \<open>Elevation model\<close>

definition no_negative :: "grid \<Rightarrow> bool" where
  "no_negative g = (\<forall>row \<in> set g. \<forall>c \<in> set row. case c of None \<Rightarrow> True | Some e \<Rightarrow> 0 \<le> e)"

definition no_negative_values :: "real list list \<Rightarrow> bool" where
  "no_negative_values g = (\<forall>row \<in> set g. \<forall>v \<in> set row. 0 \<le> v)"

text \<open>
  What the properties need of the two library functions: resampling by linear
  interpolation and Gaussian smoothing give no negative value when they are given none.
\<close>

definition keeps_no_negative :: "(grid \<Rightarrow> real \<Rightarrow> grid) \<Rightarrow> bool" where
  "keeps_no_negative zoom = (\<forall>g factor. no_negative g \<longrightarrow> no_negative (zoom g factor))"

definition keeps_no_negative_values :: "(real list list \<Rightarrow> real \<Rightarrow> real list list) \<Rightarrow> bool" where
  "keeps_no_negative_values gaussian_filter =
     (\<forall>g sigma. no_negative_values g \<longrightarrow> no_negative_values (gaussian_filter g sigma))"

definition sample_raw :: grid where
  "sample_raw = [[Some (- 9999), Some 5], [Some (- 3), Some 12]]"

subsection \<open>Masks\<close>

definition same_shape :: "'a list list \<Rightarrow> 'b list list \<Rightarrow> bool" where
  "same_shape a b = (map length a = map length b)"

text \<open>One mask is a subset of another: they have the same shape, and cell by cell.\<close>

definition mask_subset :: "mask \<Rightarrow> mask \<Rightarrow> bool" where
  "mask_subset a b = list_all2 (list_all2 (\<lambda>x y. x \<longrightarrow> y)) a b"

definition count_true :: "mask \<Rightarrow> nat" where
  "count_true m = length (filter (\<lambda>x. x) (concat m))"

definition basin_grid :: grid where
  "basin_grid = [[Some 5, Some 5, Some 5], [Some 5, Some 1, Some 5], [Some 5, Some 5, None]]"

section \<open>Properties of the tile decoder\<close>

lemma unat_byte_less: "unat (c :: 8 word) < 256"
  using unsigned_less [of c, where ?'a = nat] by simp

lemma unat_ucast_byte: "unat (ucast (c :: 8 word) :: 32 word) = unat c"
proof -
  have "unat c < 4294967296"
    using unat_byte_less [of c] by simp
  then show ?thesis
    by (simp add: unsigned_ucast_eq take_bit_nat_eq_self_iff)
qed

lemma unat_pixel_code:
  "unat (pixel_code r g b) = unat r * 65536 + unat g * 256 + unat b"
proof -
  have "unat (pixel_code r g b) = (unat r * 65536 + unat g * 256 + unat b) mod 2 ^ 32"
    by (simp add: pixel_code_def unat_word_ariths unat_ucast_byte mod_simps)
  also have "\<dots> = unat r * 65536 + unat g * 256 + unat b"
    using unat_byte_less [of r] unat_byte_less [of g] unat_byte_less [of b] by simp
  finally show ?thesis .
qed

lemma pixel_code_bound: "unat (pixel_code r g b) < 2 ^ 24"
  using unat_byte_less [of r] unat_byte_less [of g] unat_byte_less [of b]
  by (simp add: unat_pixel_code)

lemma decode_elevation_unat:
  "decode_elevation x =
     (if unat x = 8388608 then None
      else if unat x < 8388608 then Some (real (unat x) * 0.01)
      else Some ((real (unat x) - 16777216) * 0.01))"
proof -
  have eq: "x = 8388608 \<longleftrightarrow> unat x = 8388608"
    by (simp add: word_unat_eq_iff)
  have lt: "x < 8388608 \<longleftrightarrow> unat x < 8388608"
    by (simp add: word_less_nat_alt)
  show ?thesis
    by (simp add: decode_elevation_def Let_def eq lt)
qed

text \<open>
  C1 (as amended). For every pixel \<open>(r, g, b)\<close>, with
  \<open>x = r * 65536 + g * 256 + b\<close>: \<open>x\<close> is below \<open>2 ^ 24\<close>, and the decoder yields
  no-data when \<open>x = 8388608\<close>, \<open>x * 0.01\<close> when \<open>x < 8388608\<close> and
  \<open>(x - 16777216) * 0.01\<close> otherwise. In particular \<open>x = 0\<close> gives 0,
  \<open>x = 8388607\<close> gives 83886.07, \<open>x = 8388609\<close> gives -83886.07 and
  \<open>x = 16777215\<close> gives -0.01.
\<close>

theorem png_to_elevation_rule:
  fixes r g b :: "8 word"
  defines "x \<equiv> unat r * 65536 + unat g * 256 + unat b"
  shows "x < 2 ^ 24
    \<and> png_to_elevation [[(r, g, b)]] =
        [[if x = 8388608 then None
          else if x < 8388608 then Some (real x * 0.01)
          else Some ((real x - 16777216) * 0.01)]]
    \<and> png_to_elevation [[(0, 0, 0)]] = [[Some 0]]
    \<and> png_to_elevation [[(128, 0, 0)]] = [[None]]
    \<and> png_to_elevation [[(127, 255, 255)]] = [[Some 83886.07]]
    \<and> png_to_elevation [[(128, 0, 1)]] = [[Some (- 83886.07)]]
    \<and> png_to_elevation [[(255, 255, 255)]] = [[Some (- 0.01)]]"
proof -
  have bound: "x < 2 ^ 24"
    using pixel_code_bound [of r g b] by (simp add: x_def unat_pixel_code)
  have rule: "png_to_elevation [[(r, g, b)]] =
        [[if x = 8388608 then None
          else if x < 8388608 then Some (real x * 0.01)
          else Some ((real x - 16777216) * 0.01)]]"
    by (simp add: png_to_elevation_def decode_elevation_unat unat_pixel_code x_def)
  have v0: "png_to_elevation [[(0, 0, 0)]] = [[Some 0]]"
    by (simp add: png_to_elevation_def decode_elevation_unat unat_pixel_code)
  have v1: "png_to_elevation [[(128, 0, 0)]] = [[None]]"
    by (simp add: png_to_elevation_def decode_elevation_unat unat_pixel_code)
  have v2: "png_to_elevation [[(127, 255, 255)]] = [[Some 83886.07]]"
    by (simp add: png_to_elevation_def decode_elevation_unat unat_pixel_code)
  have v3: "png_to_elevation [[(128, 0, 1)]] = [[Some (- 83886.07)]]"
    by (simp add: png_to_elevation_def decode_elevation_unat unat_pixel_code)
  have v4: "png_to_elevation [[(255, 255, 255)]] = [[Some (- 0.01)]]"
    by (simp add: png_to_elevation_def decode_elevation_unat unat_pixel_code)
  from bound rule v0 v1 v2 v3 v4 show ?thesis by blast
qed

text \<open>
  C1 as stated fails at \<open>x = 8388609\<close>, the pixel \<open>(128, 0, 1)\<close>: the elevation is
  \<open>(8388609 - 16777216) * 0.01 = -83886.07\<close>, not -83838.07.
\<close>

theorem png_to_elevation_8388609_counterexample:
  "png_to_elevation [[(128, 0, 1)]] \<noteq> [[Some (- 83838.07)]]"
  by (simp add: png_to_elevation_def decode_elevation_unat unat_pixel_code)

section \<open>Properties of the level sequence\<close>

text \<open>
  C2 (as amended). With minimum elevation -5, maximum elevation 123 and interval 10 the
  automatic base is -10, the effective base is 0, and the levels are
  \<open>0, 10, \<dots>, 120\<close>: the loop runs while the level is at most
  \<open>123 + 10 * 0.01 = 123.1\<close>, which 130 exceeds.
\<close>

theorem get_levels_example:
  "base_elev None (- 5) 10 = Inr (- 10)
   \<and> effective_base (- 10) = 0
   \<and> get_levels (- 10) 123 10 = Some [0, 10, 20, 30, 40, 50, 60, 70, 80, 90, 100, 110, 120]"
proof -
  have "\<lfloor>- 5 / (10 :: real)\<rfloor> = - 1"
    by (simp add: floor_eq_iff)
  then have b: "base_elev None (- 5) 10 = Inr (- 10)"
    by (simp add: base_elev_def)
  have e: "effective_base (- 10) = 0"
    by (simp add: effective_base_def)
  have l: "get_levels (- 10) 123 10 = Some [0, 10, 20, 30, 40, 50, 60, 70, 80, 90, 100, 110, 120]"
    by (simp add: get_levels_def effective_base_def levels_loop.simps)
  from b e l show ?thesis by blast
qed

text \<open>
  C2 as stated fails: the list of levels does not reach 130.
\<close>

theorem get_levels_example_counterexample:
  "get_levels (- 10) 123 10 \<noteq> Some [0, 10, 20, 30, 40, 50, 60, 70, 80, 90, 100, 110, 120, 130]"
  by (simp add: get_levels_def effective_base_def levels_loop.simps)

section \<open>Properties of the simplifier\<close>

lemma argmax_less: "xs \<noteq> [] \<Longrightarrow> argmax xs < length xs"
  by (induction xs rule: argmax.induct) (auto simp: Let_def)

lemma argmax_greatest: "i < length xs \<Longrightarrow> xs ! i \<le> xs ! argmax xs"
proof (induction xs arbitrary: i rule: argmax.induct)
  case 1
  then show ?case by simp
next
  case (2 x)
  then show ?case by simp
next
  case (3 x y ys)
  show ?case
  proof (cases i)
    case 0
    then show ?thesis by (simp add: Let_def)
  next
    case (Suc j)
    with "3.prems" have "j < length (y # ys)" by simp
    then have "(y # ys) ! j \<le> (y # ys) ! argmax (y # ys)" by (rule "3.IH")
    with Suc show ?thesis by (auto simp: Let_def)
  qed
qed

lemma argmax_first: "i < argmax xs \<Longrightarrow> xs ! i < xs ! argmax xs"
proof (induction xs arbitrary: i rule: argmax.induct)
  case 1
  then show ?case by simp
next
  case (2 x)
  then show ?case by simp
next
  case (3 x y ys)
  show ?case
  proof (cases "x < (y # ys) ! argmax (y # ys)")
    case False
    with "3.prems" show ?thesis by (simp add: Let_def)
  next
    case True
    show ?thesis
    proof (cases i)
      case 0
      with True show ?thesis by (simp add: Let_def)
    next
      case (Suc j)
      with "3.prems" True have "j < argmax (y # ys)" by (simp add: Let_def)
      then have "(y # ys) ! j < (y # ys) ! argmax (y # ys)" by (rule "3.IH")
      with Suc True show ?thesis by (simp add: Let_def)
    qed
  qed
qed

lemma length_chord_dists: "length (chord_dists points) = length points"
  by (simp add: chord_dists_def Let_def)

lemma norm2_nonneg: "0 \<le> norm2 p"
  by (simp add: norm2_def)

lemma norm2_psub_self: "norm2 (psub p p) = 0"
  by (simp add: norm2_def psub_def)

lemma cross2_self: "cross2 d (psub p p) = 0"
  by (simp add: cross2_def psub_def)

lemma cross2_neg_self: "cross2 (psub q p) (psub p q) = 0"
  by (simp add: cross2_def psub_def algebra_simps)

lemma chord_dists_first: "points \<noteq> [] \<Longrightarrow> chord_dists points ! 0 = 0"
  by (simp add: chord_dists_def Let_def norm2_psub_self cross2_self hd_conv_nth)

lemma chord_dists_last:
  "points \<noteq> [] \<Longrightarrow> chord_dists points ! (length points - 1) = 0"
  by (simp add: chord_dists_def Let_def cross2_neg_self last_conv_nth hd_conv_nth)

text \<open>A farthest point whose distance exceeds a non-negative tolerance is an inner point.\<close>

lemma split_index_inner:
  assumes "3 \<le> length points" and "0 \<le> epsilon"
    and "chord_dists points ! argmax (chord_dists points) > epsilon"
  shows "1 \<le> argmax (chord_dists points) \<and> argmax (chord_dists points) + 2 \<le> length points"
proof -
  let ?i = "argmax (chord_dists points)"
  from assms(1) have ne: "points \<noteq> []" by auto
  then have "chord_dists points \<noteq> []"
    using length_chord_dists [of points] by auto
  then have "?i < length points"
    using argmax_less [of "chord_dists points"] by (simp add: length_chord_dists)
  moreover have "?i \<noteq> 0"
  proof
    assume "?i = 0"
    with assms(2,3) chord_dists_first [OF ne] show False by simp
  qed
  moreover have "?i \<noteq> length points - 1"
  proof
    assume "?i = length points - 1"
    with assms(2,3) chord_dists_last [OF ne] show False by simp
  qed
  ultimately show ?thesis by arith
qed

lemma rdp_simplify_short: "length points < 3 \<Longrightarrow> rdp_simplify points epsilon = Some points"
  by (subst rdp_simplify.simps) simp

lemma rdp_simplify_flat:
  "3 \<le> length points \<Longrightarrow> \<not> chord_dists points ! argmax (chord_dists points) > epsilon
   \<Longrightarrow> rdp_simplify points epsilon = Some [hd points, last points]"
  by (subst rdp_simplify.simps) (simp add: Let_def)

lemma rdp_simplify_split:
  "3 \<le> length points \<Longrightarrow> chord_dists points ! argmax (chord_dists points) > epsilon
   \<Longrightarrow> rdp_simplify points epsilon =
       do {
         left \<leftarrow> rdp_simplify (take (argmax (chord_dists points) + 1) points) epsilon;
         right \<leftarrow> rdp_simplify (drop (argmax (chord_dists points)) points) epsilon;
         Some (butlast left @ right)
       }"
  by (subst rdp_simplify.simps) (simp add: Let_def)

lemma rdp_simplify_endpoints_aux:
  "2 \<le> length points \<Longrightarrow> 0 \<le> epsilon \<Longrightarrow>
     \<exists>r. rdp_simplify points epsilon = Some r \<and> hd r = hd points \<and> last r = last points
        \<and> 2 \<le> length r"
proof (induction points rule: length_induct)
  case (1 points)
  show ?case
  proof (cases "length points < 3")
    case True
    with "1.prems" show ?thesis by (simp add: rdp_simplify_short)
  next
    case long: False
    let ?i = "argmax (chord_dists points)"
    show ?thesis
    proof (cases "chord_dists points ! ?i > epsilon")
      case False
      with long have "rdp_simplify points epsilon = Some [hd points, last points]"
        by (simp add: rdp_simplify_flat)
      then show ?thesis by simp
    next
      case True
      with long "1.prems" have inner: "1 \<le> ?i \<and> ?i + 2 \<le> length points"
        using split_index_inner [of points epsilon] by simp
      let ?l = "take (?i + 1) points" and ?r = "drop ?i points"
      have "length ?l < length points" "2 \<le> length ?l"
        using inner by simp_all
      with "1.IH" "1.prems" obtain left where left:
        "rdp_simplify ?l epsilon = Some left" "hd left = hd ?l" "2 \<le> length left"
        by blast
      have "length ?r < length points" "2 \<le> length ?r"
        using inner by (simp_all, arith+)
      with "1.IH" "1.prems" obtain right where right:
        "rdp_simplify ?r epsilon = Some right" "last right = last ?r" "2 \<le> length right"
        by blast
      have res: "rdp_simplify points epsilon = Some (butlast left @ right)"
        using long True left(1) right(1) by (simp add: rdp_simplify_split)
      have bl: "butlast left \<noteq> []"
        using left(3) by (cases left rule: rev_cases) auto
      have "hd (butlast left @ right) = hd left"
        using bl left(3) by (cases left) auto
      also have "\<dots> = hd points"
        using left(2) inner by (cases points) auto
      finally have h: "hd (butlast left @ right) = hd points" .
      have rne: "right \<noteq> []" using right(3) by auto
      then have "last (butlast left @ right) = last right" by simp
      also have "\<dots> = last points"
        using right(2) inner by simp
      finally have l: "last (butlast left @ right) = last points" .
      have "2 \<le> length (butlast left @ right)"
        using right(3) by simp
      with res h l show ?thesis by simp
    qed
  qed
qed

lemma chord_dists_nth:
  "i < length points \<Longrightarrow>
     chord_dists points ! i = chord_dist (hd points) (last points) (points ! i)"
  by (simp add: chord_dists_def chord_dist_def Let_def)

lemma norm2_eq_0_iff: "norm2 p = 0 \<longleftrightarrow> p = (0, 0)"
  by (cases p) (simp add: norm2_def sum_power2_eq_zero_iff)

lemma psub_eq_0_iff: "psub p q = (0, 0) \<longleftrightarrow> p = q"
  by (cases p, cases q) (simp add: psub_def)

lemma argmax_unique:
  assumes k: "k < length xs" and strict: "\<And>i. i < length xs \<Longrightarrow> i \<noteq> k \<Longrightarrow> xs ! i < xs ! k"
  shows "argmax xs = k"
proof (rule ccontr)
  assume ne: "argmax xs \<noteq> k"
  from k have "xs \<noteq> []" by auto
  then have "argmax xs < length xs" by (rule argmax_less)
  with ne have "xs ! argmax xs < xs ! k" by (rule strict [rotated])
  moreover from k have "xs ! k \<le> xs ! argmax xs" by (rule argmax_greatest)
  ultimately show False by simp
qed

lemma collinear_chord_dist:
  assumes col: "collinear points" and p: "p \<in> set points" and ne: "points \<noteq> []"
    and ends: "hd points \<noteq> last points"
  shows "chord_dist (hd points) (last points) p = 0"
proof -
  have "hd points \<in> set points" "last points \<in> set points"
    using ne by simp_all
  with col p have "cross2 (psub (last points) (hd points)) (psub p (hd points)) = 0"
    unfolding collinear_def by blast
  then have "cross2 (psub (last points) (hd points)) (psub (hd points) p) = 0"
    by (simp add: cross2_def psub_def algebra_simps)
  moreover have "norm2 (psub (last points) (hd points)) \<noteq> 0"
    using ends by (simp add: norm2_eq_0_iff psub_eq_0_iff)
  ultimately show ?thesis by (simp add: chord_dist_def)
qed

lemma rdp_simplify_flat_all:
  assumes len: "2 \<le> length points"
    and flat: "\<And>p. p \<in> set points \<Longrightarrow> chord_dist (hd points) (last points) p \<le> epsilon"
  shows "rdp_simplify points epsilon = Some [hd points, last points]"
proof (cases "length points < 3")
  case True
  with len have "length points = 2" by simp
  then obtain a b where "points = [a, b]"
    by (cases points; cases "tl points") auto
  then show ?thesis by (simp add: rdp_simplify_short)
next
  case False
  let ?i = "argmax (chord_dists points)"
  from False have "chord_dists points \<noteq> []"
    using length_chord_dists [of points] by auto
  then have i: "?i < length points"
    using argmax_less [of "chord_dists points"] by (simp add: length_chord_dists)
  then have "chord_dists points ! ?i = chord_dist (hd points) (last points) (points ! ?i)"
    by (rule chord_dists_nth)
  also have "\<dots> \<le> epsilon"
    using i by (intro flat) simp
  finally have "\<not> chord_dists points ! ?i > epsilon" by simp
  with False show ?thesis by (simp add: rdp_simplify_flat)
qed

lemma rdp_simplify_collinear_aux:
  assumes "collinear points" "2 \<le> length points" "0 \<le> epsilon"
    and "hd points \<noteq> last points \<or> (\<forall>p \<in> set points. norm2 (psub p (hd points)) \<le> epsilon)"
  shows "rdp_simplify points epsilon = Some [hd points, last points]"
proof (rule rdp_simplify_flat_all [OF assms(2)])
  fix p assume p: "p \<in> set points"
  from assms(2) have ne: "points \<noteq> []" by auto
  show "chord_dist (hd points) (last points) p \<le> epsilon"
  proof (cases "hd points = last points")
    case False
    with assms(1,3) p ne show ?thesis by (simp add: collinear_chord_dist)
  next
    case True
    with assms(4) p have "norm2 (psub p (hd points)) \<le> epsilon" by blast
    with True show ?thesis by (simp add: chord_dist_def norm2_psub_self)
  qed
qed

lemma on_leg_param:
  assumes "on_leg a c p"
  shows "\<exists>t. 0 \<le> t \<and> t < 1 \<and> fst p = fst a + t * (fst c - fst a)
           \<and> snd p = snd a + t * (snd c - snd a)"
proof -
  define u1 u2 v1 v2 where "u1 = fst c - fst a" and "u2 = snd c - snd a"
    and "v1 = fst p - fst a" and "v2 = snd p - snd a"
  define n where "n = u1 * u1 + u2 * u2"
  define t where "t = (v1 * u1 + v2 * u2) / n"
  from assms have cr: "u1 * v2 = u2 * v1" and lo: "0 \<le> v1 * u1 + v2 * u2"
    and hi: "v1 * u1 + v2 * u2 < n"
    by (simp_all add: on_leg_def cross2_def dot2_def psub_def u1_def u2_def v1_def v2_def n_def)
  from lo hi have npos: "0 < n" by simp
  have t0: "0 \<le> t" using lo npos by (simp add: t_def)
  have t1: "t < 1" using hi npos by (simp add: t_def)
  have "t * u1 * n = (v1 * u1 + v2 * u2) * u1"
    using npos by (simp add: t_def)
  also have "\<dots> = v1 * (u1 * u1) + u2 * (u1 * v2)" by (simp add: algebra_simps)
  also have "\<dots> = v1 * n" by (simp add: cr n_def algebra_simps)
  finally have e1: "t * u1 = v1" using npos by simp
  have "t * u2 * n = (v1 * u1 + v2 * u2) * u2"
    using npos by (simp add: t_def)
  also have "\<dots> = u1 * (u2 * v1) + v2 * (u2 * u2)" by (simp add: algebra_simps)
  also have "\<dots> = v2 * n" by (simp add: cr [symmetric] n_def algebra_simps)
  finally have e2: "t * u2 = v2" using npos by simp
  from e1 e2 have "fst p = fst a + t * (fst c - fst a)" "snd p = snd a + t * (snd c - snd a)"
    by (simp_all add: u1_def u2_def v1_def v2_def)
  with t0 t1 show ?thesis by blast
qed

lemma norm2_scale: "norm2 (t * x, t * y) = \<bar>t\<bar> * norm2 (x, y)"
proof -
  have "(t * x)\<^sup>2 + (t * y)\<^sup>2 = t\<^sup>2 * (x\<^sup>2 + y\<^sup>2)"
    by (simp add: power_mult_distrib algebra_simps)
  then show ?thesis
    by (simp add: norm2_def real_sqrt_mult)
qed

lemma chord_dist_scaled:
  assumes par: "fst p = fst e + t * (fst c - fst e)" "snd p = snd e + t * (snd c - snd e)"
    and e: "e = a \<or> e = b" and t: "0 \<le> t"
  shows "chord_dist a b p = t * chord_dist a b c"
proof (cases "norm2 (psub b a) = 0")
  case True
  then have ab: "b = a" by (simp add: norm2_eq_0_iff psub_eq_0_iff)
  with e have ea: "e = a" by auto
  have "psub p a = (t * (fst c - fst a), t * (snd c - snd a))"
    using par by (simp add: psub_def ea)
  then have "norm2 (psub p a) = \<bar>t\<bar> * norm2 (fst c - fst a, snd c - snd a)"
    by (simp add: norm2_scale)
  with t True show ?thesis by (simp add: chord_dist_def psub_def)
next
  case False
  have "cross2 (psub b a) (psub a p) = t * cross2 (psub b a) (psub a c)"
  proof (cases "e = a")
    case True
    then show ?thesis by (simp add: cross2_def psub_def par algebra_simps)
  next
    case False
    with e have "e = b" by simp
    then show ?thesis by (simp add: cross2_def psub_def par algebra_simps)
  qed
  then have "\<bar>cross2 (psub b a) (psub a p)\<bar> = t * \<bar>cross2 (psub b a) (psub a c)\<bar>"
    using t by (simp add: abs_mult)
  with False show ?thesis by (simp add: chord_dist_def)
qed

lemma leg_dist_less:
  assumes leg: "on_leg a c p \<or> on_leg b c p" and pos: "0 < chord_dist a b c"
  shows "chord_dist a b p < chord_dist a b c"
proof -
  from leg obtain e where e: "e = a \<or> e = b" and "on_leg e c p" by blast
  then obtain t where t: "0 \<le> t" "t < 1"
    and par: "fst p = fst e + t * (fst c - fst e)" "snd p = snd e + t * (snd c - snd e)"
    using on_leg_param by blast
  from par e t(1) have "chord_dist a b p = t * chord_dist a b c"
    by (rule chord_dist_scaled)
  with t(2) pos show ?thesis by simp
qed

lemma rdp_simplify_corner_aux:
  assumes poly: "corner_polyline xs c ys" and eps: "0 \<le> epsilon"
    and dev: "chord_dist (hd xs) (last ys) c > epsilon"
  shows "\<exists>r. rdp_simplify (xs @ c # ys) epsilon = Some r \<and> c \<in> set r"
proof -
  let ?pts = "xs @ c # ys" and ?k = "length xs"
  let ?a = "hd xs" and ?b = "last ys"
  from poly have xs: "xs \<noteq> []" and ys: "ys \<noteq> []"
    and l1: "\<And>p. p \<in> set xs \<Longrightarrow> on_leg ?a c p"
    and l2: "\<And>p. p \<in> set ys \<Longrightarrow> on_leg ?b c p"
    by (simp_all add: corner_polyline_def)
  have hd: "hd ?pts = ?a" using xs by simp
  have last: "last ?pts = ?b" using ys by simp
  have len: "3 \<le> length ?pts"
    using xs ys by (cases xs; cases ys) simp_all
  from eps dev have pos: "0 < chord_dist ?a ?b c" by simp
  have "argmax (chord_dists ?pts) = ?k"
  proof (rule argmax_unique)
    show "?k < length (chord_dists ?pts)" by (simp add: length_chord_dists)
  next
    fix i assume i: "i < length (chord_dists ?pts)" and ik: "i \<noteq> ?k"
    then have il: "i < length ?pts" by (simp add: length_chord_dists)
    have "on_leg ?a c (?pts ! i) \<or> on_leg ?b c (?pts ! i)"
    proof (cases "i < ?k")
      case True
      then have "?pts ! i \<in> set xs" by (simp add: nth_append)
      then show ?thesis using l1 by blast
    next
      case False
      with ik il have "?pts ! i = ys ! (i - ?k - 1)" "i - ?k - 1 < length ys"
        by (auto simp: nth_append nth_Cons')
      then have "?pts ! i \<in> set ys" by simp
      then show ?thesis using l2 by blast
    qed
    then have "chord_dist ?a ?b (?pts ! i) < chord_dist ?a ?b c"
      using pos by (rule leg_dist_less)
    then show "chord_dists ?pts ! i < chord_dists ?pts ! ?k"
      using il by (simp add: chord_dists_nth hd last del: hd_append2 last_appendR last.simps)
  qed
  then have am: "argmax (chord_dists ?pts) = ?k" .
  have "chord_dists ?pts ! ?k = chord_dist ?a ?b c"
    by (simp add: chord_dists_nth hd last del: hd_append2 last_appendR last.simps)
  with dev am have far: "chord_dists ?pts ! argmax (chord_dists ?pts) > epsilon" by simp
  have tk: "take (?k + 1) ?pts = xs @ [c]" and dr: "drop ?k ?pts = c # ys"
    by simp_all
  have "2 \<le> length (xs @ [c])" using xs by (cases xs) simp_all
  with eps obtain left where left: "rdp_simplify (xs @ [c]) epsilon = Some left"
    using rdp_simplify_endpoints_aux by blast
  have "2 \<le> length (c # ys)" using ys by (cases ys) simp_all
  with eps obtain right where right: "rdp_simplify (c # ys) epsilon = Some right"
    "hd right = hd (c # ys)" "2 \<le> length right"
    using rdp_simplify_endpoints_aux by blast
  from right(3) have "right \<noteq> []" by auto
  with right(2) have "c \<in> set right" by (cases right) auto
  moreover have "rdp_simplify ?pts epsilon =
      rdp_simplify (take (?k + 1) ?pts) epsilon \<bind>
        (\<lambda>left. rdp_simplify (drop ?k ?pts) epsilon \<bind>
          (\<lambda>right. Some (butlast left @ right)))"
    using rdp_simplify_split [OF len far] unfolding am .
  then have "rdp_simplify ?pts epsilon = Some (butlast left @ right)"
    unfolding tk dr left right(1) by simp
  ultimately show ?thesis by simp
qed

lemma collinear_on_axis:
  "(\<And>p. p \<in> set points \<Longrightarrow> snd p = 0) \<Longrightarrow> collinear points"
  by (simp add: collinear_def cross2_def psub_def)

lemma out_and_back_facts:
  "length out_and_back = 100" "collinear out_and_back"
  "hd out_and_back = (0, 0)" "last out_and_back = (0, 0)"
  by (auto simp: out_and_back_def intro!: collinear_on_axis)

lemma out_and_back_result:
  "rdp_simplify out_and_back (1/2) = Some [(0, 0), (1, 0), (0, 0)]"
proof -
  let ?pts = "out_and_back"
  have len: "3 \<le> length ?pts" by (simp add: out_and_back_facts)
  have d: "chord_dists ?pts ! i = (if i = 49 then 1 else 0)" if "i < 100" for i
    using that
    by (simp add: chord_dists_nth out_and_back_facts chord_dist_def norm2_psub_self)
      (auto simp: out_and_back_def nth_append nth_Cons' norm2_def psub_def)
  have am: "argmax (chord_dists ?pts) = 49"
    by (rule argmax_unique) (simp_all add: length_chord_dists out_and_back_facts d)
  have far: "chord_dists ?pts ! argmax (chord_dists ?pts) > 1/2"
    by (simp add: am d)
  have tk: "take (49 + 1) ?pts = replicate 49 (0, 0) @ [(1, 0)]"
    and dr: "drop 49 ?pts = (1, 0) # replicate 50 (0, 0)"
    by (simp_all add: out_and_back_def)
  have "rdp_simplify (replicate 49 (0, 0) @ [(1, 0)]) (1/2) =
      Some [hd (replicate 49 (0, 0) @ [(1, 0)]), last (replicate 49 (0, 0) @ [(1, 0)])]"
    by (rule rdp_simplify_flat_all) (auto simp: chord_dist_def cross2_def psub_def norm2_def)
  then have left: "rdp_simplify (replicate 49 (0, 0) @ [(1, 0)]) (1/2) = Some [(0, 0), (1, 0)]"
    by simp
  have "rdp_simplify ((1, 0) # replicate 50 (0, 0)) (1/2) =
      Some [hd ((1, 0) # replicate 50 (0, 0)), last ((1, 0) # replicate 50 (0, 0))]"
    by (rule rdp_simplify_flat_all) (auto simp: chord_dist_def cross2_def psub_def norm2_def)
  then have right: "rdp_simplify ((1, 0) # replicate 50 (0, 0)) (1/2) = Some [(1, 0), (0, 0)]"
    by simp
  have "rdp_simplify ?pts (1/2) =
      rdp_simplify (take (49 + 1) ?pts) (1/2) \<bind>
        (\<lambda>left. rdp_simplify (drop 49 ?pts) (1/2) \<bind>
          (\<lambda>right. Some (butlast left @ right)))"
    using rdp_simplify_split [OF len far] unfolding am .
  then show ?thesis
    unfolding tk dr left right by simp
qed

text \<open>
  C10. For at least two points and a tolerance that is not negative, the simplifier
  returns, and its output begins with the first input point, ends with the last input
  point and has at least two points.
\<close>

theorem rdp_simplify_endpoints:
  "2 \<le> length points \<Longrightarrow> 0 \<le> epsilon \<Longrightarrow>
     \<exists>r. rdp_simplify points epsilon = Some r \<and> hd r = hd points \<and> last r = last points
        \<and> 2 \<le> length r"
  by (rule rdp_simplify_endpoints_aux)

theorem rdp_simplify_endpoints_witness:
  "2 \<le> length [(0, 0), (1, 1), (2, 0 :: real)] \<and> (0 :: real) \<le> 1/2
   \<and> (\<exists>r. rdp_simplify [(0, 0), (1, 1), (2, 0)] (1/2) = Some r
          \<and> hd r = hd [(0, 0), (1, 1), (2, 0)] \<and> last r = last [(0, 0), (1, 1), (2, 0)]
          \<and> 2 \<le> length r)"
  using rdp_simplify_endpoints [of "[(0, 0), (1, 1), (2, 0)]" "1/2"] by simp

text \<open>
  C7 (as amended). The simplifier returns an input of fewer than three points unchanged.
  A run of 100 collinear points is reduced to its two endpoints, for any positive
  tolerance, when its first and last points differ or every point is within the
  tolerance of the first point. In a right-angle polyline (two straight legs meeting in
  a corner) whose corner is farther from the chord of the endpoints than the tolerance,
  which is not negative, the corner is a point of the output.
\<close>

theorem rdp_simplify_properties:
  "(length short < 3 \<longrightarrow> rdp_simplify short epsilon = Some short)
   \<and> (length run = 100 \<and> collinear run \<and> 0 < epsilon
        \<and> (hd run \<noteq> last run \<or> (\<forall>p \<in> set run. norm2 (psub p (hd run)) \<le> epsilon))
      \<longrightarrow> rdp_simplify run epsilon = Some [hd run, last run])
   \<and> (right_angle_polyline xs c ys \<and> 0 \<le> epsilon
        \<and> chord_dist (hd xs) (last ys) c > epsilon
      \<longrightarrow> (\<exists>r. rdp_simplify (xs @ c # ys) epsilon = Some r \<and> c \<in> set r))"
proof (intro conjI impI)
  assume "length short < 3"
  then show "rdp_simplify short epsilon = Some short" by (rule rdp_simplify_short)
next
  assume a: "length run = 100 \<and> collinear run \<and> 0 < epsilon
        \<and> (hd run \<noteq> last run \<or> (\<forall>p \<in> set run. norm2 (psub p (hd run)) \<le> epsilon))"
  then have "collinear run" "2 \<le> length run" "0 \<le> epsilon"
    "hd run \<noteq> last run \<or> (\<forall>p \<in> set run. norm2 (psub p (hd run)) \<le> epsilon)"
    by simp_all
  then show "rdp_simplify run epsilon = Some [hd run, last run]"
    by (rule rdp_simplify_collinear_aux)
next
  assume "right_angle_polyline xs c ys \<and> 0 \<le> epsilon
        \<and> chord_dist (hd xs) (last ys) c > epsilon"
  then have "corner_polyline xs c ys" "0 \<le> epsilon" "chord_dist (hd xs) (last ys) c > epsilon"
    by (simp_all add: right_angle_polyline_def)
  then show "\<exists>r. rdp_simplify (xs @ c # ys) epsilon = Some r \<and> c \<in> set r"
    by (rule rdp_simplify_corner_aux)
qed

lemma sqrt_25: "sqrt 25 = 5"
  by (rule real_sqrt_unique) simp_all

theorem rdp_simplify_properties_witness:
  "length [(0, 0), (1, 1 :: real)] < 3
   \<and> rdp_simplify [(0, 0), (1, 1)] 1 = Some [(0, 0), (1, 1)]
   \<and> length straight_run = 100 \<and> collinear straight_run \<and> (0 :: real) < 1
   \<and> hd straight_run \<noteq> last straight_run
   \<and> rdp_simplify straight_run 1 = Some [(0, 0), (99, 0)]
   \<and> right_angle_polyline [(0, 0)] (0, 3) [(4, 3)] \<and> (0 :: real) \<le> 1
   \<and> chord_dist (0, 0) (4, 3) (0, 3) > 1
   \<and> (\<exists>r. rdp_simplify [(0, 0), (0, 3), (4, 3)] 1 = Some r \<and> (0, 3) \<in> set r)"
proof -
  have s: "length straight_run = 100" "collinear straight_run"
    "hd straight_run = (0, 0)" "last straight_run = (99, 0)"
    by (auto simp: straight_run_def hd_map last_map intro!: collinear_on_axis)
  have p: "right_angle_polyline [(0, 0)] (0, 3) [(4, 3)]"
    by (simp add: right_angle_polyline_def corner_polyline_def on_leg_def cross2_def
        dot2_def psub_def)
  have c: "chord_dist (0, 0) (4, 3) (0, 3) > 1"
    by (simp add: chord_dist_def norm2_def psub_def cross2_def sqrt_25)
  show ?thesis
    using rdp_simplify_properties [of "[(0, 0), (1, 1)]" 1 straight_run "[(0, 0)]" "(0, 3)" "[(4, 3)]"]
      s p c
    by simp
qed

text \<open>
  C7 as stated fails for collinear points that return to where they began: the chord has
  length zero, the distances are those to the first point, and the farthest point is
  kept.
\<close>

theorem rdp_simplify_collinear_counterexample:
  "length out_and_back = 100 \<and> collinear out_and_back \<and> (0 :: real) < 1/2
   \<and> rdp_simplify out_and_back (1/2) \<noteq> Some [hd out_and_back, last out_and_back]"
  by (simp add: out_and_back_facts out_and_back_result)

section \<open>Properties of compositing\<close>

lemma fill_cell_simps: "fill_cell (Some e) l = Some e" "fill_cell None l = l"
  by (cases l; simp add: fill_cell_def)+

lemma is_tile_nth: "is_tile n g \<Longrightarrow> i < n \<Longrightarrow> length (g ! i) = n"
  by (auto simp: is_tile_def)

lemma tile_eqI:
  assumes "is_tile n g" "is_tile n h" "\<And>i j. i < n \<Longrightarrow> j < n \<Longrightarrow> g ! i ! j = h ! i ! j"
  shows "g = h"
proof (rule nth_equalityI)
  show "length g = length h" using assms(1,2) by (simp add: is_tile_def)
next
  fix i assume "i < length g"
  then have i: "i < n" using assms(1) by (simp add: is_tile_def)
  show "g ! i = h ! i"
  proof (rule nth_equalityI)
    show "length (g ! i) = length (h ! i)"
      using assms(1,2) i by (simp add: is_tile_nth)
  next
    fix j assume "j < length (g ! i)"
    then have "j < n" using assms(1) i by (simp add: is_tile_nth)
    with i show "g ! i ! j = h ! i ! j" by (rule assms(3))
  qed
qed

lemma is_tile_fill_gaps: "is_tile n r \<Longrightarrow> is_tile n l \<Longrightarrow> is_tile n (fill_gaps r l)"
  by (auto simp: is_tile_def fill_gaps_def set_zip)

lemma fill_gaps_nth:
  "is_tile n r \<Longrightarrow> is_tile n l \<Longrightarrow> i < n \<Longrightarrow> j < n \<Longrightarrow>
     fill_gaps r l ! i ! j = fill_cell (r ! i ! j) (l ! i ! j)"
  by (simp add: fill_gaps_def is_tile_def)

lemma has_nan_nth:
  assumes t: "is_tile n g"
  shows "has_nan g \<longleftrightarrow> (\<exists>i<n. \<exists>j<n. g ! i ! j = None)"
proof
  assume "has_nan g"
  then obtain row where row: "row \<in> set g" "None \<in> set row"
    by (auto simp: has_nan_def)
  then obtain i where i: "i < length g" "g ! i = row"
    by (auto simp: in_set_conv_nth)
  from row(2) obtain j where j: "j < length row" "row ! j = None"
    by (auto simp: in_set_conv_nth)
  from t i j row(1) have "i < n" "j < n" by (auto simp: is_tile_def)
  with i j show "\<exists>i<n. \<exists>j<n. g ! i ! j = None" by auto
next
  assume "\<exists>i<n. \<exists>j<n. g ! i ! j = None"
  then obtain i j where ij: "i < n" "j < n" "g ! i ! j = None" by blast
  with t have "g ! i \<in> set g" "j < length (g ! i)" by (auto simp: is_tile_def)
  with ij(3) show "has_nan g"
    unfolding has_nan_def by (intro bexI [of _ "g ! i"]) (auto simp: in_set_conv_nth)
qed

lemma fill_gaps_full:
  assumes "is_tile n r" "is_tile n l" "\<not> has_nan r"
  shows "fill_gaps r l = r"
proof (rule tile_eqI [where n = n])
  show "is_tile n (fill_gaps r l)" using assms(1,2) by (rule is_tile_fill_gaps)
  show "is_tile n r" by fact
next
  fix i j assume "i < n" "j < n"
  moreover from this assms(1,3) have "r ! i ! j \<noteq> None" by (auto simp: has_nan_nth)
  ultimately show "fill_gaps r l ! i ! j = r ! i ! j"
    using assms(1,2) by (auto simp: fill_gaps_nth fill_cell_simps)
qed

lemma foldl_fill_gaps_tile:
  "is_tile n r \<Longrightarrow> \<forall>g \<in> set gs. is_tile n g \<Longrightarrow> is_tile n (foldl fill_gaps r gs)"
  by (induction gs arbitrary: r) (simp_all add: is_tile_fill_gaps)

lemma foldl_fill_gaps_full:
  "is_tile n r \<Longrightarrow> \<forall>g \<in> set gs. is_tile n g \<Longrightarrow> \<not> has_nan r \<Longrightarrow> foldl fill_gaps r gs = r"
  by (induction gs arbitrary: r) (simp_all add: fill_gaps_full)

lemma foldl_fill_gaps_nth:
  "is_tile n r \<Longrightarrow> \<forall>g \<in> set gs. is_tile n g \<Longrightarrow> i < n \<Longrightarrow> j < n \<Longrightarrow>
     foldl fill_gaps r gs ! i ! j = foldl fill_cell (r ! i ! j) (map (\<lambda>g. g ! i ! j) gs)"
  by (induction gs arbitrary: r) (simp_all add: is_tile_fill_gaps fill_gaps_nth)

lemma foldl_fill_cell_Some: "foldl fill_cell (Some e) cs = Some e"
  by (induction cs) (simp_all add: fill_cell_simps)

lemma foldl_fill_cell_None: "foldl fill_cell None cs = first_valid cs"
proof (induction cs)
  case Nil
  show ?case by simp
next
  case (Cons c cs)
  then show ?case by (cases c) (simp_all add: fill_cell_simps foldl_fill_cell_Some)
qed

lemma present_simps:
  "present [] = []" "present (None # ls) = present ls" "present (Some g # ls) = g # present ls"
  by (simp_all add: present_def)

lemma composite_foldl:
  "is_tile n r \<Longrightarrow> \<forall>g \<in> set (present ls). is_tile n g \<Longrightarrow>
     composite n r ls = Inr (foldl fill_gaps r (present ls))"
proof (induction ls arbitrary: r)
  case Nil
  show ?case by (simp add: present_simps)
next
  case (Cons l ls)
  show ?case
  proof (cases l)
    case None
    with Cons show ?thesis by (simp add: present_simps)
  next
    case (Some g)
    with Cons.prems have g: "is_tile n g" and rest: "\<forall>g \<in> set (present ls). is_tile n g"
      by (simp_all add: present_simps)
    from Cons.prems(1) g have t: "is_tile n (fill_gaps r g)" by (rule is_tile_fill_gaps)
    show ?thesis
    proof (cases "has_nan (fill_gaps r g)")
      case True
      with Some g t rest Cons.IH show ?thesis by (simp add: present_simps)
    next
      case False
      with t rest have "foldl fill_gaps (fill_gaps r g) (present ls) = fill_gaps r g"
        by (simp add: foldl_fill_gaps_full)
      with Some g False show ?thesis by (simp add: present_simps)
    qed
  qed
qed

lemma is_tile_blank: "is_tile n (replicate n (replicate n None))"
  by (simp add: is_tile_def)

lemma is_tile_overlay: "is_tile n (overlay n gs)"
  by (auto simp: is_tile_def overlay_def)

lemma composite_overlay:
  assumes "\<forall>g \<in> set (present ls). is_tile n g"
  shows "composite n (replicate n (replicate n None)) ls = Inr (overlay n (present ls))"
proof -
  let ?blank = "replicate n (replicate n None) :: grid"
  have "foldl fill_gaps ?blank (present ls) = overlay n (present ls)"
  proof (rule tile_eqI [where n = n])
    show "is_tile n (foldl fill_gaps ?blank (present ls))"
      using is_tile_blank assms by (rule foldl_fill_gaps_tile)
    show "is_tile n (overlay n (present ls))" by (rule is_tile_overlay)
  next
    fix i j assume ij: "i < n" "j < n"
    then have "foldl fill_gaps ?blank (present ls) ! i ! j =
        foldl fill_cell (?blank ! i ! j) (map (\<lambda>g. g ! i ! j) (present ls))"
      using is_tile_blank assms by (intro foldl_fill_gaps_nth)
    with ij show "foldl fill_gaps ?blank (present ls) ! i ! j = overlay n (present ls) ! i ! j"
      by (simp add: foldl_fill_cell_None overlay_def)
  qed
  with composite_foldl [OF is_tile_blank assms] show ?thesis by simp
qed

lemma composite_extra:
  "composite n res ls = Inr r \<Longrightarrow> \<not> has_nan r \<Longrightarrow> has_nan res \<Longrightarrow>
     composite n res (ls @ extra) = Inr r"
proof (induction ls arbitrary: res)
  case Nil
  then show ?case by simp
next
  case (Cons l ls)
  show ?case
  proof (cases l)
    case None
    with Cons show ?thesis by simp
  next
    case (Some g)
    show ?thesis
    proof (cases "is_tile n g")
      case False
      with Some Cons.prems show ?thesis by simp
    next
      case True
      show ?thesis
      proof (cases "has_nan (fill_gaps res g)")
        case False
        with Some True Cons.prems show ?thesis by simp
      next
        case nan: True
        with Some True Cons.prems have "composite n (fill_gaps res g) ls = Inr r" by simp
        then have "composite n (fill_gaps res g) (ls @ extra) = Inr r"
          using Cons.prems(2) nan by (rule Cons.IH)
        with Some True nan show ?thesis by simp
      qed
    qed
  qed
qed

lemma has_nan_blank: "0 < n \<Longrightarrow> has_nan (replicate n (replicate n None))"
  by (auto simp: has_nan_def)

lemma disjoint_nodata_nth:
  "disjoint_nodata a b \<Longrightarrow> is_tile n a \<Longrightarrow> i < n \<Longrightarrow> j < n \<Longrightarrow>
     \<not> (a ! i ! j = None \<and> b ! i ! j = None)"
proof -
  assume d: "disjoint_nodata a b" and t: "is_tile n a" and i: "i < n" and j: "j < n"
  from t i have "i < length a" by (simp add: is_tile_def)
  with d have "list_all2 (\<lambda>x y. \<not> (x = None \<and> y = None)) (a ! i) (b ! i)"
    unfolding disjoint_nodata_def by (rule list_all2_nthD)
  moreover from t i j have "j < length (a ! i)" by (simp add: is_tile_nth)
  ultimately show ?thesis by (rule list_all2_nthD)
qed

lemma overlay_full:
  assumes "is_tile n a" "disjoint_nodata a b"
  shows "\<not> has_nan (overlay n (a # b # gs))"
proof -
  have "overlay n (a # b # gs) ! i ! j \<noteq> None" if "i < n" "j < n" for i j
  proof -
    from assms that have "\<not> (a ! i ! j = None \<and> b ! i ! j = None)"
      by (simp add: disjoint_nodata_nth)
    with that show ?thesis
      by (cases "a ! i ! j"; cases "b ! i ! j") (simp_all add: overlay_def)
  qed
  then show ?thesis
    using has_nan_nth [OF is_tile_overlay] by blast
qed

text \<open>
  C4. Compositing starts from a grid without data and lets every source, in priority
  order, fill the cells that are still without data; it stops once no such cell is left.
  For sources that are tiles, the result is the union of the sources that did not fail.
  For three tiles with pairwise disjoint no-data patterns the result is their union, and
  it has no cell without data. Once the result of some sources has no cell without data,
  one more source of lower priority does not change it.
\<close>

theorem download_one_composite:
  "((\<forall>g \<in> set (present layers). is_tile n g)
      \<longrightarrow> download_one n None layers = Inr (overlay n (present layers)))
   \<and> (is_tile n a \<and> is_tile n b \<and> is_tile n c
        \<and> disjoint_nodata a b \<and> disjoint_nodata a c \<and> disjoint_nodata b c
      \<longrightarrow> download_one n None [Some a, Some b, Some c] = Inr (overlay n [a, b, c])
          \<and> \<not> has_nan (overlay n [a, b, c]))
   \<and> (0 < n \<and> download_one n None layers = Inr r \<and> \<not> has_nan r
      \<longrightarrow> download_one n None (layers @ [extra]) = Inr r)"
proof (intro conjI impI)
  assume "\<forall>g \<in> set (present layers). is_tile n g"
  then show "download_one n None layers = Inr (overlay n (present layers))"
    by (simp add: download_one_def composite_overlay)
next
  assume h: "is_tile n a \<and> is_tile n b \<and> is_tile n c
        \<and> disjoint_nodata a b \<and> disjoint_nodata a c \<and> disjoint_nodata b c"
  then have "\<forall>g \<in> set (present [Some a, Some b, Some c]). is_tile n g"
    by (simp add: present_simps)
  then have "composite n (replicate n (replicate n None)) [Some a, Some b, Some c] =
      Inr (overlay n (present [Some a, Some b, Some c]))"
    by (rule composite_overlay)
  then show "download_one n None [Some a, Some b, Some c] = Inr (overlay n [a, b, c])"
    by (simp add: download_one_def present_simps)
next
  assume "is_tile n a \<and> is_tile n b \<and> is_tile n c
        \<and> disjoint_nodata a b \<and> disjoint_nodata a c \<and> disjoint_nodata b c"
  then show "\<not> has_nan (overlay n [a, b, c])"
    by (simp add: overlay_full)
next
  assume h: "0 < n \<and> download_one n None layers = Inr r \<and> \<not> has_nan r"
  then have "composite n (replicate n (replicate n None)) layers = Inr r"
    by (simp add: download_one_def)
  moreover from h have "\<not> has_nan r" by simp
  moreover from h have "has_nan (replicate n (replicate n None))"
    by (simp add: has_nan_blank)
  ultimately have "composite n (replicate n (replicate n None)) (layers @ [extra]) = Inr r"
    by (rule composite_extra)
  then show "download_one n None (layers @ [extra]) = Inr r"
    by (simp add: download_one_def)
qed

lemma upt_0_2: "[0..<2] = [0, 1]"
  by (simp add: eval_nat_numeral)

theorem download_one_composite_witness:
  "is_tile 2 tile_a \<and> is_tile 2 tile_b \<and> is_tile 2 tile_c
   \<and> disjoint_nodata tile_a tile_b \<and> disjoint_nodata tile_a tile_c
   \<and> disjoint_nodata tile_b tile_c
   \<and> download_one 2 None [Some tile_a, Some tile_b, Some tile_c] =
       Inr [[Some 1, Some 2], [Some 1, Some 1]]
   \<and> \<not> has_nan [[Some 1, Some 2], [Some 1, Some 1]]
   \<and> download_one 2 None [Some tile_a, Some tile_b] = Inr [[Some 1, Some 2], [Some 1, Some 1]]
   \<and> download_one 2 None ([Some tile_a, Some tile_b] @ [Some tile_c]) =
       Inr [[Some 1, Some 2], [Some 1, Some 1]]"
proof -
  have t: "is_tile 2 tile_a" "is_tile 2 tile_b" "is_tile 2 tile_c"
    by (simp_all add: is_tile_def tile_a_def tile_b_def tile_c_def)
  have d: "disjoint_nodata tile_a tile_b" "disjoint_nodata tile_a tile_c"
    "disjoint_nodata tile_b tile_c"
    by (simp_all add: disjoint_nodata_def tile_a_def tile_b_def tile_c_def)
  have o: "overlay 2 [tile_a, tile_b, tile_c] = [[Some 1, Some 2], [Some 1, Some 1]]"
    by (simp add: overlay_def tile_a_def tile_b_def tile_c_def upt_0_2)
  have o2: "overlay 2 [tile_a, tile_b] = [[Some 1, Some 2], [Some 1, Some 1]]"
    by (simp add: overlay_def tile_a_def tile_b_def upt_0_2)
  have n: "\<not> has_nan [[Some 1, Some 2], [Some 1, Some (1 :: real)]]"
    by (simp add: has_nan_def)
  have two: "download_one 2 None [Some tile_a, Some tile_b] =
      Inr [[Some 1, Some 2], [Some 1, Some 1]]"
    using download_one_composite [of "[Some tile_a, Some tile_b]" 2] t o2
    by (simp add: present_simps)
  show ?thesis
    using download_one_composite [of "[Some tile_a, Some tile_b]" 2 tile_a tile_b tile_c
        "[[Some 1, Some 2], [Some 1, Some 1]]" "Some tile_c"] t d o n two
    by simp
qed

section \<open>Properties of the tile coordinates, the mosaic and the crop\<close>

lemma lat_r_range:
  assumes "- 90 < lat" "lat < 90"
  shows "- (pi / 2) < lat * pi / 180" "lat * pi / 180 < pi / 2"
proof -
  have "lat * pi < 90 * pi" using assms(2) pi_gt_zero by (simp only: mult_less_cancel_right_pos)
  then show "lat * pi / 180 < pi / 2" by simp
  have "- 90 * pi < lat * pi" using assms(1) pi_gt_zero by (simp only: mult_less_cancel_right_pos)
  then show "- (pi / 2) < lat * pi / 180" by simp
qed

lemma sec_tan_pos:
  assumes "- (pi / 2) < r" "r < pi / 2"
  shows "0 < cos r" "0 < tan r + 1 / cos r"
proof -
  show c: "0 < cos r" using assms by (rule cos_gt_zero_pi)
  have "sin r \<noteq> - 1"
  proof
    assume "sin r = - 1"
    with sin_cos_squared_add [of r] have "(cos r)\<^sup>2 = 0" by simp
    with c show False by simp
  qed
  with sin_ge_minus_one [of r] have "0 < 1 + sin r" by linarith
  then have "0 < (1 + sin r) / cos r" using c by simp
  also have "(1 + sin r) / cos r = tan r + 1 / cos r"
    by (simp add: tan_def add_divide_distrib)
  finally show "0 < tan r + 1 / cos r" .
qed

lemma float_pow2_returns:
  "- 1074 \<le> zoom \<Longrightarrow> zoom < 1024 \<Longrightarrow> float_pow2 zoom = Inr (2 powi zoom)"
  by (simp add: float_pow2_def)

lemma deg2num_returns:
  assumes "- 90 < lat" "lat < 90" and "- 1074 \<le> zoom" "zoom < 1024"
  shows "deg2num lat lon zoom =
     Inr (py_int ((lon + 180) / 360 * 2 powi zoom), py_int (merc lat * 2 powi zoom))"
proof -
  let ?r = "lat * pi / 180"
  have r: "- (pi / 2) < ?r" "?r < pi / 2" using assms(1,2) by (rule lat_r_range)+
  then have "0 < cos ?r" "0 < tan ?r + 1 / cos ?r" by (rule sec_tan_pos)+
  then show ?thesis
    using assms(3,4) by (simp add: deg2num_def Let_def merc_def float_pow2_returns)
qed

lemma num2deg_eq:
  "- 1074 \<le> zoom \<Longrightarrow> zoom < 1024 \<Longrightarrow>
     num2deg x y zoom =
       Inr (unmerc (of_int y / 2 powi zoom), of_int x / 2 powi zoom * 360 - 180)"
  by (simp add: num2deg_def unmerc_def Let_def float_pow2_returns)

lemma create_geotiff_empty_aux:
  "assembled lat_a lat_b lon_a lon_b zoom tile_data = Inr elevation \<Longrightarrow> \<not> has_valid elevation
     \<Longrightarrow> create_geotiff lat_a lat_b lon_a lon_b zoom skip ans tile_data = Inr None"
  by (auto simp: assembled_def create_geotiff_def Let_def split: sum.splits)

lemma create_geotiff_written_aux:
  "create_geotiff lat_a lat_b lon_a lon_b zoom skip ans tile_data = Inr (Some f)
     \<Longrightarrow> \<exists>elevation. assembled lat_a lat_b lon_a lon_b zoom tile_data = Inr elevation
           \<and> has_valid elevation"
  by (auto simp: assembled_def create_geotiff_def Let_def split: sum.splits if_splits)

lemma py_int_of_int [simp]: "py_int (of_int k) = k"
  by (simp add: py_int_def)

lemma py_int_half: "py_int (1 / 2) = 0"
  by (simp add: py_int_def)

lemma deg2num_origin: "deg2num 0 0 0 = Inr (0, 0)"
  by (simp add: deg2num_def Let_def float_pow2_def py_int_half)

lemma tile_range_origin:
  "tile_range 0 0 0 0 0 = Inr \<lparr>tx_min = 0, ty_min = 0, tx_max = 0, ty_max = 0\<rparr>"
  by (simp add: tile_range_def deg2num_origin)

lemma unmerc_0_pos: "0 < unmerc 0"
  by (simp add: unmerc_def zero_less_arctan_iff)

lemma unmerc_1: "unmerc 1 = - unmerc 0"
  by (simp add: unmerc_def arctan_minus)

lemma crop_geometry_origin:
  "\<exists>c. crop_geometry 0 0 0 0 0 \<lparr>tx_min = 0, ty_min = 0, tx_max = 0, ty_max = 0\<rparr> = Inr c
      \<and> row_start c = 128 \<and> row_end c = 129 \<and> col_start c = 128 \<and> col_end c = 129
      \<and> crop_width c = 1 \<and> crop_height c = 1"
proof -
  let ?L = "unmerc 0"
  have L: "0 < ?L" by (rule unmerc_0_pos)
  have r: "(?L - 0) / ((?L - - ?L) / 256) = 128"
    using L by (simp add: field_simps)
  have c: "((0 :: real) - - 180) / ((180 - - 180) / 256) = 128"
    by simp
  have p: "py_int 128 = 128"
    using py_int_of_int [of 128] by simp
  show ?thesis
    using L
    by (simp add: crop_geometry_def num2deg_eq unmerc_1 crop_window_def Let_def r c p)
qed

lemma is_tile_corner_tile: "is_tile 256 corner_tile"
  by (auto simp: is_tile_def corner_tile_def)

lemma mosaic_origin:
  "mosaic (\<lambda>_. Some corner_tile) \<lparr>tx_min = 0, ty_min = 0, tx_max = 0, ty_max = 0\<rparr> =
     Inr (map (\<lambda>r. map (\<lambda>c. corner_tile ! r ! c) [0..<256]) [0..<256])"
  by (simp add: mosaic_def Let_def is_tile_corner_tile mosaic_cell_def upto.simps)

lemma mosaic_origin_empty:
  "mosaic (\<lambda>_. None) \<lparr>tx_min = 0, ty_min = 0, tx_max = 0, ty_max = 0\<rparr> =
     Inr (map (\<lambda>r. map (\<lambda>c. None) [0..<256]) [0..<256])"
  by (simp add: mosaic_def Let_def mosaic_cell_def upto.simps)

lemma has_valid_nthI:
  "i < length g \<Longrightarrow> j < length (g ! i) \<Longrightarrow> g ! i ! j \<noteq> None \<Longrightarrow> has_valid g"
  unfolding has_valid_def by (intro bexI [of _ "g ! i"] bexI [of _ "g ! i ! j"]) simp_all

lemma slice2_cell:
  assumes "i < length a" "j < length (a ! i)"
  shows "slice2 a (int i) (int i + 1) (int j) (int j + 1) = [[a ! i ! j]]"
proof -
  have one: "take (Suc 0) (drop k xs) = [xs ! k]" if "k < length xs" for k and xs :: "'b list"
    using Cons_nth_drop_Suc [OF that, symmetric] by simp
  show ?thesis
    using assms by (simp add: slice2_def one)
qed

lemma create_geotiff_corner_tile:
  "\<exists>f. create_geotiff 0 0 0 0 0 True True (\<lambda>_. Some corner_tile) = Inr (Some f)
      \<and> tif_width f = 1 \<and> tif_height f = 1 \<and> tif_band f = [[- 9999]]"
proof -
  let ?m = "map (\<lambda>r. map (\<lambda>c. corner_tile ! r ! c) [0..<256]) [0..<256]"
  obtain c where c: "crop_geometry 0 0 0 0 0 \<lparr>tx_min = 0, ty_min = 0, tx_max = 0, ty_max = 0\<rparr> = Inr c"
    "row_start c = 128" "row_end c = 129" "col_start c = 128" "col_end c = 129"
    "crop_width c = 1" "crop_height c = 1"
    using crop_geometry_origin by blast
  have v: "has_valid ?m"
    by (rule has_valid_nthI [of 0 _ 0]) (simp_all add: corner_tile_def)
  have "slice2 ?m (int 128) (int 128 + 1) (int 128) (int 128 + 1) = [[?m ! 128 ! 128]]"
    by (rule slice2_cell) simp_all
  also have "?m ! 128 ! 128 = None"
    by (simp add: corner_tile_def)
  finally have s: "slice2 ?m 128 129 128 129 = [[None]]" by simp
  show ?thesis
    by (simp add: create_geotiff_def tile_range_origin mosaic_origin v c s)
qed

lemma create_geotiff_no_tiles:
  "assembled 0 0 0 0 0 (\<lambda>_. None) = Inr (map (\<lambda>r. map (\<lambda>c. None) [0..<256]) [0..<256])"
  "\<not> has_valid (map (\<lambda>r. map (\<lambda>c. None) [0..<256]) [0..<256])"
  by (auto simp: assembled_def tile_range_origin mosaic_origin_empty has_valid_def)

text \<open>
  C6 (as amended). If every pixel of the assembled mosaic, before the crop, is no-data,
  \<open>create_geotiff\<close> returns \<open>False\<close> and writes no file; whenever a file is written,
  at least one pixel of the assembled mosaic holds valid data.
\<close>

theorem create_geotiff_empty_mosaic:
  "(assembled lat_a lat_b lon_a lon_b zoom tile_data = Inr elevation \<and> \<not> has_valid elevation
      \<longrightarrow> create_geotiff lat_a lat_b lon_a lon_b zoom skip ans tile_data = Inr None)
   \<and> (create_geotiff lat_a lat_b lon_a lon_b zoom skip ans tile_data = Inr (Some f)
      \<longrightarrow> (\<exists>m. assembled lat_a lat_b lon_a lon_b zoom tile_data = Inr m \<and> has_valid m))"
  using create_geotiff_empty_aux [of lat_a lat_b lon_a lon_b zoom tile_data elevation skip ans]
    create_geotiff_written_aux [of lat_a lat_b lon_a lon_b zoom skip ans tile_data f]
  by blast

lemma corner_tiles_eq: "corner_tiles = (\<lambda>_. Some corner_tile)"
  by (rule ext) (simp add: corner_tiles_def)

lemma no_tiles_eq: "no_tiles = (\<lambda>_. None)"
  by (rule ext) (simp add: no_tiles_def)

theorem create_geotiff_empty_mosaic_witness:
  "assembled 0 0 0 0 0 no_tiles = Inr (map (\<lambda>r. map (\<lambda>c. None) [0..<256]) [0..<256])
   \<and> \<not> has_valid (map (\<lambda>r. map (\<lambda>c. None) [0..<256]) [0..<256])
   \<and> create_geotiff 0 0 0 0 0 True True no_tiles = Inr None
   \<and> (\<exists>f. create_geotiff 0 0 0 0 0 True True corner_tiles = Inr (Some f))
   \<and> (\<exists>m. assembled 0 0 0 0 0 corner_tiles = Inr m \<and> has_valid m)"
proof -
  let ?e = "map (\<lambda>r. map (\<lambda>c. None :: cell) [0..<256]) [0..<256]"
  have a: "assembled 0 0 0 0 0 no_tiles = Inr ?e" and b: "\<not> has_valid ?e"
    using create_geotiff_no_tiles by (simp_all add: no_tiles_eq)
  obtain f where f: "create_geotiff 0 0 0 0 0 True True corner_tiles = Inr (Some f)"
    using create_geotiff_corner_tile by (auto simp: corner_tiles_eq)
  from a b f
    create_geotiff_empty_mosaic [of 0 0 0 0 0 no_tiles ?e True True]
    create_geotiff_empty_mosaic [of 0 0 0 0 0 corner_tiles _ True True f]
  show ?thesis by blast
qed

text \<open>
  C6 as stated fails: the check is made before the crop. For a request at latitude 0 and
  longitude 0 at zoom 0, and a tile whose only valid cell is its first one, the crop is
  the pixel in row 128 and column 128, and the file is written with no valid pixel (its
  band holds the no-data value only).
\<close>

theorem create_geotiff_cropped_empty_counterexample:
  "map_sum id (map_option tif_band) (create_geotiff 0 0 0 0 0 True True corner_tiles) =
     Inr (Some [[- 9999]])"
  using create_geotiff_corner_tile by (auto simp: corner_tiles_eq)

text \<open>
  C8 (as amended). \<open>deg2num\<close> has no range check: for every latitude of at most 89
  degrees north or south, inside the Mercator band or outside it, every longitude from
  -180 to 180 degrees and every zoom from 0 to 1023 it returns tile coordinates.
\<close>

theorem deg2num_no_range_check:
  assumes "- 89 \<le> lat" "lat \<le> 89" and "- 180 \<le> lon" "lon \<le> 180"
    and "0 \<le> zoom" "zoom \<le> 1023"
  shows "\<exists>x y. deg2num lat lon zoom = Inr (x, y)"
proof -
  from assms(1,2) have "- 90 < lat" "lat < 90" by simp_all
  moreover from assms(5,6) have "- 1074 \<le> zoom" "zoom < 1024" by simp_all
  ultimately show ?thesis by (simp add: deg2num_returns)
qed

theorem deg2num_no_range_check_witness:
  "- 89 \<le> (86 :: real) \<and> (86 :: real) \<le> 89 \<and> - 180 \<le> (0 :: real) \<and> (0 :: real) \<le> 180
   \<and> (0 :: int) \<le> 14 \<and> (14 :: int) \<le> 1023
   \<and> \<not> (- 85.05 < (86 :: real) \<and> (86 :: real) < 85.05)
   \<and> (\<exists>x y. deg2num 86 0 14 = Inr (x, y))"
  using deg2num_no_range_check [of 86 0 14] by simp

text \<open>
  C8 as stated fails: at latitude 86, outside the Mercator band, \<open>deg2num\<close> does not
  fail.
\<close>

theorem deg2num_out_of_band_counterexample:
  "\<not> (- 85.05 < (86 :: real) \<and> (86 :: real) < 85.05) \<and> (0 :: int) \<le> 0
   \<and> \<not> isl (deg2num 86 0 0)"
  by (simp add: deg2num_returns)

text \<open>
  C5 (a defect of the code). The claim asks that every offset is clamped into
  \<open>[0, dimension]\<close> and that the crop has at least one row and one column. The code
  clamps the start offsets from below only. For a requested latitude of
  35.63944106897394 at longitude 139.7 and zoom 14, \<open>deg2num\<close> in doubles gives the tile
  row 6453 (and column 14549), and \<open>num2deg\<close> in doubles gives this very latitude as the
  south edge of that row: the request lies on the south edge of the mosaic. The crop step
  then yields \<open>row_start = row_end = 256\<close>, the height of the mosaic: a crop of no rows
  and one column.
\<close>

theorem crop_window_empty_at_south_edge:
  "map_sum id crop_offsets
     (crop_window row_6453_south row_6453_south lon_139_7 lon_139_7
        row_6453_north (286065 / 2048) row_6453_south (143055 / 1024) 256 256) =
     Inr (256, 256, 230, 231, 1, 0)"
  by (simp add: crop_window_def Let_def crop_offsets_def py_int_def
      row_6453_south_def row_6453_north_def lon_139_7_def)

section \<open>Properties of the region masks\<close>

lemma same_shape_nth:
  "same_shape a b \<longleftrightarrow> length a = length b \<and> (\<forall>i<length a. length (a ! i) = length (b ! i))"
  unfolding same_shape_def by (auto simp: list_eq_iff_nth_eq)

lemma mask_subset_iff:
  "mask_subset a b \<longleftrightarrow>
     same_shape a b \<and> (\<forall>i<length a. \<forall>j<length (a ! i). a ! i ! j \<longrightarrow> b ! i ! j)"
  unfolding mask_subset_def same_shape_nth by (auto simp: list_all2_conv_all_nth)

lemma same_shape_refl [simp]: "same_shape a a"
  by (simp add: same_shape_def)

lemma same_shape_map [simp]: "same_shape (map (map f) a) b = same_shape a b"
  "same_shape a (map (map f) b) = same_shape a b"
  by (simp_all add: same_shape_def comp_def)

lemma same_shape_dilate_step [simp]: "same_shape (dilate_step allowed cur) allowed"
  by (simp add: same_shape_nth dilate_step_def)

lemma dilate_step_nth:
  "i < length allowed \<Longrightarrow> j < length (allowed ! i) \<Longrightarrow>
     dilate_step allowed cur ! i ! j =
       (allowed ! i ! j
        \<and> (cell_or_border cur (int i) (int j)
           \<or> cell_or_border cur (int i - 1) (int j)
           \<or> cell_or_border cur (int i + 1) (int j)
           \<or> cell_or_border cur (int i) (int j - 1)
           \<or> cell_or_border cur (int i) (int j + 1)))"
  by (simp add: dilate_step_def)

lemma cell_or_border_mono:
  assumes "mask_subset a b" "cell_or_border a i j"
  shows "cell_or_border b i j"
proof (cases "0 \<le> i \<and> i < int (length b) \<and> 0 \<le> j \<and> j < int (length (b ! nat i))")
  case False
  then show ?thesis unfolding cell_or_border_def by (simp only: if_False)
next
  case True
  from assms(1) have sh: "length a = length b" "\<And>k. k < length a \<Longrightarrow> length (a ! k) = length (b ! k)"
    and le: "\<And>k l. k < length a \<Longrightarrow> l < length (a ! k) \<Longrightarrow> a ! k ! l \<Longrightarrow> b ! k ! l"
    by (simp_all add: mask_subset_iff same_shape_nth)
  from True sh(1) have i: "nat i < length a" by linarith
  from True sh(2) [OF i] have j: "nat j < length (a ! nat i)" by linarith
  with True sh assms(2) have "a ! nat i ! nat j" by (simp add: cell_or_border_def)
  with i j have "b ! nat i ! nat j" by (rule le)
  with True show ?thesis by (simp add: cell_or_border_def)
qed

lemma dilate_step_mono:
  assumes al: "mask_subset allowed allowed'" and cu: "mask_subset cur cur'"
  shows "mask_subset (dilate_step allowed cur) (dilate_step allowed' cur')"
proof -
  from al have sh: "same_shape allowed allowed'"
    and le: "\<And>i j. i < length allowed \<Longrightarrow> j < length (allowed ! i) \<Longrightarrow> allowed ! i ! j
        \<Longrightarrow> allowed' ! i ! j"
    by (simp_all add: mask_subset_iff)
  have shape: "same_shape (dilate_step allowed cur) (dilate_step allowed' cur')"
    using sh by (simp add: same_shape_nth dilate_step_def)
  have "dilate_step allowed' cur' ! i ! j"
    if i: "i < length allowed" and j: "j < length (allowed ! i)"
      and h: "dilate_step allowed cur ! i ! j" for i j
  proof -
    from sh i j have i': "i < length allowed'" and j': "j < length (allowed' ! i)"
      by (simp_all add: same_shape_nth)
    from h i j have a: "allowed ! i ! j"
      and n: "cell_or_border cur (int i) (int j)
           \<or> cell_or_border cur (int i - 1) (int j)
           \<or> cell_or_border cur (int i + 1) (int j)
           \<or> cell_or_border cur (int i) (int j - 1)
           \<or> cell_or_border cur (int i) (int j + 1)"
      by (simp_all add: dilate_step_nth)
    from i j a have "allowed' ! i ! j" by (rule le)
    moreover from n have "cell_or_border cur' (int i) (int j)
           \<or> cell_or_border cur' (int i - 1) (int j)
           \<or> cell_or_border cur' (int i + 1) (int j)
           \<or> cell_or_border cur' (int i) (int j - 1)
           \<or> cell_or_border cur' (int i) (int j + 1)"
      using cell_or_border_mono [OF cu] by blast
    ultimately show ?thesis using i' j' by (simp add: dilate_step_nth)
  qed
  with shape show ?thesis
    by (simp add: mask_subset_iff dilate_step_def)
qed

lemma dilate_until_stable_funpow:
  "dilate_until_stable fuel allowed cur = (dilate_step allowed ^^ fuel) cur"
proof (induction fuel arbitrary: cur)
  case 0
  show ?case by simp
next
  case (Suc fuel)
  show ?case
  proof (cases "dilate_step allowed cur = cur")
    case True
    then have "(dilate_step allowed ^^ k) cur = cur" for k
      by (induction k) simp_all
    with True show ?thesis by (simp del: funpow.simps)
  next
    case False
    with Suc show ?thesis by (simp add: funpow_swap1)
  qed
qed

lemma funpow_dilate_mono:
  "mask_subset allowed allowed' \<Longrightarrow> mask_subset cur cur' \<Longrightarrow>
     mask_subset ((dilate_step allowed ^^ k) cur) ((dilate_step allowed' ^^ k) cur')"
  by (induction k) (simp_all add: dilate_step_mono)

lemma mask_subset_length_concat:
  "mask_subset a b \<Longrightarrow> length (concat a) = length (concat b)"
  by (simp add: mask_subset_iff same_shape_def length_concat)

lemma mask_subset_Not:
  "mask_subset a b \<Longrightarrow> mask_subset (map (map Not) b) (map (map Not) a)"
  by (auto simp: mask_subset_iff same_shape_nth)

lemma binary_fill_holes_mono:
  assumes "mask_subset a b"
  shows "mask_subset (binary_fill_holes a) (binary_fill_holes b)"
proof -
  let ?n = "Suc (length (concat a))"
  have n: "Suc (length (concat b)) = ?n"
    using assms by (simp add: mask_subset_length_concat)
  have "mask_subset
      ((dilate_step (map (map Not) b) ^^ ?n) (map (map (\<lambda>_. False)) b))
      ((dilate_step (map (map Not) a) ^^ ?n) (map (map (\<lambda>_. False)) a))"
  proof (rule funpow_dilate_mono)
    show "mask_subset (map (map Not) b) (map (map Not) a)"
      using assms by (rule mask_subset_Not)
    show "mask_subset (map (map (\<lambda>_. False)) b) (map (map (\<lambda>_. False)) a)"
      using assms by (auto simp: mask_subset_iff same_shape_nth)
  qed
  then have "mask_subset
      (map (map Not) ((dilate_step (map (map Not) a) ^^ ?n) (map (map (\<lambda>_. False)) a)))
      (map (map Not) ((dilate_step (map (map Not) b) ^^ ?n) (map (map (\<lambda>_. False)) b)))"
    by (rule mask_subset_Not)
  then show ?thesis
    by (simp add: binary_fill_holes_def Let_def dilate_until_stable_funpow n del: funpow.simps)
qed

lemma threshold_mask_mono:
  assumes "l1 \<le> l2"
  shows "mask_subset (threshold_mask data l2) (threshold_mask data l1)"
  using assms
  by (auto simp: mask_subset_iff same_shape_nth threshold_mask_def split: option.splits)

lemma region_mask_mono:
  "l1 \<le> l2 \<Longrightarrow> mask_subset (region_mask nodata elevation l2) (region_mask nodata elevation l1)"
  unfolding region_mask_def by (intro binary_fill_holes_mono threshold_mask_mono)

lemma row_count_mono:
  "list_all2 (\<lambda>x y. x \<longrightarrow> y) xs ys \<Longrightarrow>
     length (filter (\<lambda>x. x) xs) \<le> length (filter (\<lambda>x. x) ys)
     \<and> (xs \<noteq> ys \<longrightarrow> length (filter (\<lambda>x. x) xs) < length (filter (\<lambda>x. x) ys))"
  by (induction rule: list_all2_induct) auto

lemma count_true_mono:
  "mask_subset a b \<Longrightarrow> count_true a \<le> count_true b \<and> (a \<noteq> b \<longrightarrow> count_true a < count_true b)"
  unfolding mask_subset_def count_true_def
proof (induction rule: list_all2_induct)
  case Nil
  show ?case by simp
next
  case (Cons r rs r' rs')
  from row_count_mono [OF Cons(1)] Cons(3) show ?case
    by (cases "r = r'"; cases "rs = rs'") (auto simp: add_le_less_mono add_less_le_mono)
qed

lemma count_true_le: "count_true m \<le> length (concat m)"
  by (simp add: count_true_def)

lemma same_shape_length_concat: "same_shape a b \<Longrightarrow> length (concat a) = length (concat b)"
  by (simp add: same_shape_def length_concat)

lemma dilate_step_within: "mask_subset (dilate_step allowed cur) allowed"
  by (simp add: mask_subset_iff)
    (auto simp: dilate_step_def)

lemma dilate_step_grows:
  assumes "mask_subset cur allowed"
  shows "mask_subset cur (dilate_step allowed cur)"
proof -
  from assms have sh: "same_shape cur allowed"
    and le: "\<And>i j. i < length cur \<Longrightarrow> j < length (cur ! i) \<Longrightarrow> cur ! i ! j \<Longrightarrow> allowed ! i ! j"
    by (simp_all add: mask_subset_iff)
  have "same_shape cur (dilate_step allowed cur)"
    using sh same_shape_dilate_step [of allowed cur]
    by (simp add: same_shape_def)
  moreover have "dilate_step allowed cur ! i ! j"
    if i: "i < length cur" and j: "j < length (cur ! i)" and h: "cur ! i ! j" for i j
  proof -
    from sh i j have "i < length allowed" "j < length (allowed ! i)"
      by (simp_all add: same_shape_nth)
    moreover from i j h have "allowed ! i ! j" by (rule le)
    moreover from i j h have "cell_or_border cur (int i) (int j)"
      by (simp add: cell_or_border_def)
    ultimately show ?thesis by (simp add: dilate_step_nth)
  qed
  ultimately show ?thesis by (simp add: mask_subset_iff)
qed

lemma dilate_until_stable_fixpoint:
  "mask_subset cur allowed \<Longrightarrow> length (concat allowed) - count_true cur < fuel \<Longrightarrow>
     dilate_step allowed (dilate_until_stable fuel allowed cur) =
       dilate_until_stable fuel allowed cur"
proof (induction fuel arbitrary: cur)
  case 0
  then show ?case by simp
next
  case (Suc fuel)
  let ?nxt = "dilate_step allowed cur"
  show ?case
  proof (cases "?nxt = cur")
    case True
    then show ?thesis by simp
  next
    case False
    from Suc.prems(1) have "mask_subset cur ?nxt" by (rule dilate_step_grows)
    with False have lt: "count_true cur < count_true ?nxt"
      using count_true_mono [of cur ?nxt] by auto
    have "count_true ?nxt \<le> length (concat ?nxt)" by (rule count_true_le)
    also have "\<dots> = length (concat allowed)"
      by (rule same_shape_length_concat) simp
    finally have "length (concat allowed) - count_true ?nxt < fuel"
      using lt Suc.prems(2) by arith
    with dilate_step_within have "dilate_step allowed (dilate_until_stable fuel allowed ?nxt) =
        dilate_until_stable fuel allowed ?nxt"
      by (rule Suc.IH)
    with False show ?thesis by simp
  qed
qed

text \<open>The fuel that \<open>binary_fill_holes\<close> gives the flood is enough: it ends in a fixed point.\<close>

lemma binary_fill_holes_flood_stable:
  fixes input :: mask
  defines "allowed \<equiv> map (map Not) input"
  defines "flooded \<equiv> dilate_until_stable (Suc (length (concat input))) allowed
      (map (map (\<lambda>_. False)) input)"
  shows "dilate_step allowed flooded = flooded"
  unfolding flooded_def
proof (rule dilate_until_stable_fixpoint)
  show "mask_subset (map (map (\<lambda>_. False)) input) allowed"
    by (simp add: mask_subset_iff allowed_def)
  have "length (concat allowed) = length (concat input)"
    unfolding allowed_def by (rule same_shape_length_concat) simp
  then show "length (concat allowed) - count_true (map (map (\<lambda>_. False)) input)
      < Suc (length (concat input))"
    by simp
qed

text \<open>
  C3. For every elevation grid and levels \<open>l1 < l2\<close>, the mask of \<open>l2\<close> (valid cells
  at or above the level, after the holes are filled) is a subset of the mask of \<open>l1\<close>.
\<close>

theorem region_masks_nest:
  "l1 < l2 \<Longrightarrow> mask_subset (region_mask nodata elevation l2) (region_mask nodata elevation l1)"
  by (rule region_mask_mono) simp

theorem region_masks_nest_witness:
  "(2 :: real) < 4
   \<and> mask_subset (region_mask None basin_grid 4) (region_mask None basin_grid 2)"
  using region_masks_nest [of 2 4 None basin_grid] by simp

section \<open>Properties of the elevation model\<close>

lemma no_negative_set_nan_where: "no_negative g \<Longrightarrow> no_negative (set_nan_where p g)"
  by (auto simp: no_negative_def set_nan_where_def split: option.splits)

lemma no_negative_sea: "no_negative (set_nan_where (\<lambda>e. e < 0) g)"
  by (auto simp: no_negative_def set_nan_where_def split: option.splits)

lemma no_negative_nan_to_num: "no_negative g \<Longrightarrow> no_negative_values (nan_to_num g)"
  by (fastforce simp: no_negative_def no_negative_values_def nan_to_num_def split: option.splits)

lemma no_negative_keep_nan: "no_negative_values s \<Longrightarrow> no_negative (keep_nan g s)"
  unfolding no_negative_def no_negative_values_def keep_nan_def
  by (auto simp: set_zip split: option.splits) (metis nth_mem)+

lemma valid_values_iff: "v \<in> set (valid_values g) \<longleftrightarrow> (\<exists>row \<in> set g. Some v \<in> set row)"
  by (auto simp: valid_values_def split: option.splits)

lemma nanmin_no_negative:
  assumes "no_negative g" "nanmin g = Some m"
  shows "0 \<le> m"
proof -
  from assms(2) have ne: "valid_values g \<noteq> []" and m: "m = Min (set (valid_values g))"
    by (auto simp: nanmin_def Let_def split: if_splits)
  then have "m \<in> set (valid_values g)" by (simp add: Min_in)
  then obtain row where "row \<in> set g" "Some m \<in> set row" by (auto simp: valid_values_iff)
  with assms(1) show ?thesis by (fastforce simp: no_negative_def)
qed

lemma nanmax_no_negative:
  assumes "no_negative g" "nanmax g = Some m"
  shows "0 \<le> m"
proof -
  from assms(2) have ne: "valid_values g \<noteq> []" and m: "m = Max (set (valid_values g))"
    by (auto simp: nanmax_def Let_def split: if_splits)
  then have "m \<in> set (valid_values g)" by (simp add: Max_in)
  then obtain row where "row \<in> set g" "Some m \<in> set row" by (auto simp: valid_values_iff)
  with assms(1) show ?thesis by (fastforce simp: no_negative_def)
qed

lemma set_nan_where_nth:
  "i < length g \<Longrightarrow> j < length (g ! i) \<Longrightarrow>
     set_nan_where p g ! i ! j =
       (case g ! i ! j of None \<Rightarrow> None | Some e \<Rightarrow> if p e then None else Some e)"
  by (simp add: set_nan_where_def)

lemma set_nan_where_shape [simp]:
  "length (set_nan_where p g) = length g"
  "i < length g \<Longrightarrow> length (set_nan_where p g ! i) = length (g ! i)"
  by (simp_all add: set_nan_where_def)

lemma mark_nodata_negative:
  assumes "i < length raw" "j < length (raw ! i)" "raw ! i ! j = Some e"
    and "e < 0 \<and> elev_range_min = None \<or> e \<le> - 9000"
  shows "mark_nodata nodata elev_range_min raw ! i ! j = None"
  using assms
  by (cases nodata; cases elev_range_min)
    (auto simp: mark_nodata_def Let_def set_nan_where_nth)

lemma load_elevation_no_negative:
  assumes z: "keeps_no_negative zoom" and f: "keeps_no_negative_values gaussian_filter"
  shows "no_negative (load_elevation zoom gaussian_filter nodata None elev_range_max
      downsample smoothing_sigma raw)"
proof -
  define r3 where "r3 = mark_nodata nodata None raw"
  define r4 where "r4 = (if downsample \<noteq> 1 then zoom r3 downsample else r3)"
  define r6 where "r6 = (case elev_range_max of None \<Rightarrow> r4 | Some hi \<Rightarrow> set_nan_where (\<lambda>e. e > hi) r4)"
  define r7 where "r7 = (if smoothing_sigma > 0
      then keep_nan r6 (gaussian_filter (nan_to_num r6) smoothing_sigma) else r6)"
  have eq: "load_elevation zoom gaussian_filter nodata None elev_range_max
      downsample smoothing_sigma raw = r7"
    unfolding load_elevation_def Let_def r7_def r6_def r4_def r3_def
    by (simp cong: if_cong option.case_cong)
  have n3: "no_negative r3"
    unfolding r3_def by (simp add: mark_nodata_def Let_def no_negative_sea)
  have n4: "no_negative r4"
    using n3 z by (simp add: r4_def keeps_no_negative_def)
  have n6: "no_negative r6"
    using n4 by (simp add: r6_def no_negative_set_nan_where split: option.splits)
  have "no_negative_values (gaussian_filter (nan_to_num r6) smoothing_sigma)"
    using n6 f by (simp add: keeps_no_negative_values_def no_negative_nan_to_num)
  then have "no_negative r7"
    using n6 by (simp add: r7_def no_negative_keep_nan)
  then show ?thesis by (simp add: eq)
qed

text \<open>
  C9. When no \<open>elev_range_min\<close> is given, every cell whose raw elevation is below 0 (so
  also -9999 and every value of at most -9000, whether the file names a no-data value or
  not) is no-data before anything else is done, the elevation model holds no negative
  value, and its minimum and maximum, when it has a valid cell, are not negative. The
  two library functions are assumed to give no negative value when they are given none.
\<close>

theorem sea_cells_become_nodata:
  fixes nodata elev_range_max :: "real option" and downsample smoothing_sigma :: real
    and raw :: grid
  assumes "keeps_no_negative zoom" "keeps_no_negative_values gaussian_filter"
  defines "elevation \<equiv> load_elevation zoom gaussian_filter nodata None elev_range_max
      downsample smoothing_sigma raw"
  shows "(\<forall>i<length raw. \<forall>j<length (raw ! i). \<forall>e. raw ! i ! j = Some e \<and> e < 0
            \<longrightarrow> mark_nodata nodata None raw ! i ! j = None)
     \<and> no_negative elevation
     \<and> (\<forall>m. nanmin elevation = Some m \<longrightarrow> 0 \<le> m)
     \<and> (\<forall>m. nanmax elevation = Some m \<longrightarrow> 0 \<le> m)"
proof -
  have n: "no_negative elevation"
    unfolding elevation_def using assms(1,2) by (rule load_elevation_no_negative)
  have "\<forall>i<length raw. \<forall>j<length (raw ! i). \<forall>e. raw ! i ! j = Some e \<and> e < 0
            \<longrightarrow> mark_nodata nodata None raw ! i ! j = None"
    by (auto intro: mark_nodata_negative)
  with n show ?thesis
    by (auto dest: nanmin_no_negative nanmax_no_negative)
qed

theorem sea_cells_become_nodata_witness:
  "keeps_no_negative (\<lambda>g factor. g) \<and> keeps_no_negative_values (\<lambda>g sigma. g)
   \<and> mark_nodata None None sample_raw = [[None, Some 5], [None, Some 12]]
   \<and> load_elevation (\<lambda>g factor. g) (\<lambda>g sigma. g) None None None (1/2) 1 sample_raw =
       [[None, Some 5], [None, Some 12]]
   \<and> no_negative (load_elevation (\<lambda>g factor. g) (\<lambda>g sigma. g) None None None (1/2) 1 sample_raw)
   \<and> nanmin [[None, Some 5], [None, Some 12]] = Some 5 \<and> (0 :: real) \<le> 5"
proof -
  have k: "keeps_no_negative (\<lambda>g factor. g)" "keeps_no_negative_values (\<lambda>g sigma. g)"
    by (simp_all add: keeps_no_negative_def keeps_no_negative_values_def)
  have m: "mark_nodata None None sample_raw = [[None, Some 5], [None, Some 12]]"
    by (simp add: mark_nodata_def Let_def set_nan_where_def sample_raw_def)
  have l: "load_elevation (\<lambda>g factor. g) (\<lambda>g sigma. g) None None None (1/2) 1 sample_raw =
       [[None, Some 5], [None, Some 12]]"
    by (simp add: load_elevation_def Let_def m keep_nan_def nan_to_num_def)
  have v: "nanmin [[None, Some 5], [None, Some 12]] = Some 5"
    by (simp add: nanmin_def valid_values_def)
  show ?thesis
    using sea_cells_become_nodata [OF k, where nodata = None and elev_range_max = None
        and downsample = "1/2" and smoothing_sigma = 1 and raw = sample_raw] k m l v
    by simp
qed

end
